theory Spec2Isabelle
  imports Complex_Main "HOL-Library.Char_ord" "HOL-Library.List_Lexorder"
begin

section \<open>The background notification dispatcher\<close>

text \<open>
  A shallow embedding of the e-mail dispatcher of the task-management service:
  the in-memory queue and its drain loop (\<^verbatim>\<open>src/services/emailService.js\<close>), the
  \<^verbatim>\<open>Email\<close> model with its methods and queries (second module of
  \<^verbatim>\<open>src/unnamed/part_008\<close>) and the batch processing of the e-mail controller
  (\<^verbatim>\<open>src/unnamed/part_002\<close>).

  Times are milliseconds since the epoch (\<open>Date.now()\<close>, \<open>new Date()\<close>), read from the
  environment and passed in. The outcomes of \<open>Math.random()\<close> are passed in as well.
  A write to the document store may fail; whether it does is passed in as a flag.
  Reads of the store are taken to succeed.
\<close>

subsection \<open>Data\<close>

type_synonym time = nat
type_synonym oid = nat

datatype email_type =
  Welcome | Task_assignment | Task_update | Task_reminder | Task_completion
  | Reminder | Notification

datatype email_status = Pending | Processing | Sent | Failed

datatype priority = Low | Normal | High | Urgent

datatype error =
  EmailNotFound
  | EmailCannotBeRetried
  | MaximumRetryAttemptsExceeded
  | SimulatedFailure
  | StoreError
  | TypeError

text \<open>
  The \<open>message\<close> of each error, as the source constructs it. The message of an error of
  the store is the driver's, and that of a \<open>TypeError\<close> the engine's; they are fixed
  strings here.
\<close>

fun message :: "error \<Rightarrow> string" where
  "message EmailNotFound = ''Email not found''"
| "message EmailCannotBeRetried = ''Email cannot be retried''"
| "message MaximumRetryAttemptsExceeded = ''Maximum retry attempts exceeded''"
| "message SimulatedFailure = ''Simulated email processing failure''"
| "message StoreError = ''document store error''"
| "message TypeError = ''Cannot read properties of null''"

text \<open>
  \<open>emailData\<close> is the object literal that every producer builds and hands to
  \<open>addToQueue\<close> and to \<open>new Email\<close>.
\<close>

record emailData =
  to :: string
  subject :: string
  content :: string
  type :: email_type
  recipient :: oid
  sender :: oid
  relatedTask :: "oid option"
  priority :: priority

text \<open>
  A queued job is \<open>{...emailData, id, addedAt, attempts, maxAttempts}\<close>: the fields of
  \<open>emailData\<close> extended by four more (\<open>job_id\<close> is the source's \<open>id\<close>).
\<close>

record job = emailData +
  job_id :: rat
  addedAt :: time
  attempts :: nat
  maxAttempts :: nat

text \<open>
  A document of the \<open>Email\<close> collection (\<open>emailSchema\<close>, with \<open>timestamps: true\<close>).
  The \<open>metadata\<close> bag is never read or written by the dispatcher and is left out.
\<close>

record email_doc = emailData +
  email_id :: oid
  status :: email_status
  scheduledAt :: time
  processedAt :: "time option"
  sentAt :: "time option"
  attempts :: nat
  maxAttempts :: nat
  errorMessage :: "string option"
  createdAt :: "time option"
  updatedAt :: "time option"

datatype log_entry =
  Email_log string "oid option" string
  | Info_starting nat
  | Info_processing rat email_type string
  | Info_processed rat email_type string
  | Error_processing rat string
  | Warn_requeued rat nat nat
  | Error_failed_permanently rat nat
  | Info_completed
  | Error_saving string string
  | Info_cleared nat
  | Info_retried oid string
  | Error_retrying oid string
  | Error_marking_failed string

text \<open>
  \<open>processQueue\<close> is an \<open>async\<close> function: it runs until its next \<open>await\<close> and is
  resumed when the awaited promise settles. \<open>worker\<close> is the point at which the one
  running call is suspended: at \<open>await processEmailJob(emailJob)\<close>, holding the job it
  has shifted off the queue, or at the delay between two jobs.
\<close>

datatype worker = Idle | Delivering job | Pausing

record state =
  emailQueue :: "job list"
  isProcessing :: bool
  worker :: worker
  emails :: "email_doc list"
  logs :: "log_entry list"

definition logged :: "log_entry \<Rightarrow> state \<Rightarrow> state" where
  "logged l s = s\<lparr>logs := logs s @ [l]\<rparr>"

subsection \<open>The queue and its drain loop\<close>

text \<open>
  One turn of \<open>while (emailQueue.length > 0)\<close> up to the first \<open>await\<close>: the test, the
  \<open>shift()\<close>, and the start of \<open>processEmailJob\<close>; when the test fails, the two
  statements after the loop.
\<close>

definition loop_head :: "state \<Rightarrow> state" where
  "loop_head s =
     (case emailQueue s of
        [] \<Rightarrow> logged Info_completed (s\<lparr>isProcessing := False, worker := Idle\<rparr>)
      | emailJob # rest \<Rightarrow>
          logged (Info_processing (job_id emailJob) (type emailJob) (to emailJob))
            (s\<lparr>emailQueue := rest, worker := Delivering emailJob\<rparr>))"

text \<open>The call \<open>processQueue()\<close>, up to its first \<open>await\<close>.\<close>

definition processQueue :: "state \<Rightarrow> state" where
  "processQueue s =
     (if isProcessing s \<or> length (emailQueue s) = 0 then s
      else loop_head
             (logged (Info_starting (length (emailQueue s))) (s\<lparr>isProcessing := True\<rparr>)))"

definition addToQueue :: "time \<Rightarrow> rat \<Rightarrow> emailData \<Rightarrow> state \<Rightarrow> state" where
  "addToQueue now rnd emailData s =
     (let s1 = s\<lparr>emailQueue := emailQueue s @
                  [emailData.extend emailData
                     (job.fields (of_nat now + rnd) now 0 3)]\<rparr>;
          s2 = logged (Email_log ''queued'' None (to emailData)) s1
      in if \<not> isProcessing s2 then processQueue s2 else s2)"

text \<open>
  The \<open>catch\<close> block of the loop, for the job whose delivery was rejected at time \<open>now\<close>.
\<close>

definition retry_or_drop :: "time \<Rightarrow> job \<Rightarrow> state \<Rightarrow> state" where
  "retry_or_drop now emailJob s =
     (let s1 = logged (Error_processing (job_id emailJob) (message SimulatedFailure)) s
      in if job.attempts emailJob < job.maxAttempts emailJob
         then let j = emailJob\<lparr>job.attempts := job.attempts emailJob + 1, addedAt := now\<rparr>
              in logged (Warn_requeued (job_id j) (job.attempts j) (job.maxAttempts j))
                   (s1\<lparr>emailQueue := emailQueue s1 @ [j]\<rparr>)
         else logged (Error_failed_permanently (job_id emailJob) (job.maxAttempts emailJob)) s1)"

text \<open>
  The promise of \<open>simulateEmailProcessing\<close> settles: resolved when \<open>Math.random() < 0.9\<close>
  (\<open>ok\<close>), rejected otherwise. A resolved delivery takes the loop to its delay; a
  rejected one runs the \<open>catch\<close> block and the next turn of the loop at once.
\<close>

definition delivery_settled :: "bool \<Rightarrow> time \<Rightarrow> state \<Rightarrow> state" where
  "delivery_settled ok now s =
     (case worker s of
        Delivering emailJob \<Rightarrow>
          if ok
          then logged (Info_processed (job_id emailJob) (type emailJob) (to emailJob))
                 (s\<lparr>worker := Pausing\<rparr>)
          else loop_head (retry_or_drop now emailJob s)
      | _ \<Rightarrow> s)"

definition delay_elapsed :: "state \<Rightarrow> state" where
  "delay_elapsed s = (case worker s of Pausing \<Rightarrow> loop_head s | _ \<Rightarrow> s)"

text \<open>
  What is left of a run when nothing else touches the queue meanwhile: the worker is
  resumed until it is idle. The \<open>k\<close>-th simulated delivery settles as \<open>outcome k\<close> says:
  whether it is resolved, and the time at which it settles.
\<close>

type_synonym outcomes = "nat \<Rightarrow> bool \<times> time"

definition job_weight :: "job \<Rightarrow> nat" where
  "job_weight j = Suc (job.maxAttempts j - job.attempts j)"

definition work_left :: "state \<Rightarrow> nat" where
  "work_left s =
     (case worker s of
        Idle \<Rightarrow> 0
      | Pausing \<Rightarrow> 2 * sum_list (map job_weight (emailQueue s)) + 1
      | Delivering j \<Rightarrow> 2 * (sum_list (map job_weight (emailQueue s)) + job_weight j))"

function run_worker :: "outcomes \<Rightarrow> nat \<Rightarrow> state \<Rightarrow> state" where
  "run_worker outcome k s =
     (case worker s of
        Idle \<Rightarrow> s
      | Pausing \<Rightarrow> run_worker outcome k (delay_elapsed s)
      | Delivering j \<Rightarrow>
          run_worker outcome (Suc k)
            (delivery_settled (fst (outcome k)) (snd (outcome k)) s))"
  by pat_completeness auto
termination
proof (relation "measure (\<lambda>(outcome, k, s). work_left s)")
  have head: "work_left (loop_head s) \<le> 2 * sum_list (map job_weight (emailQueue s))" for s
    by (cases "emailQueue s") (simp_all add: loop_head_def work_left_def logged_def)
  {
    fix outcome :: outcomes and k :: nat and s :: state
    assume "worker s = Pausing"
    then have "work_left (delay_elapsed s) < work_left s"
      using head [of s] by (simp add: delay_elapsed_def work_left_def)
    then show "((outcome, k, delay_elapsed s), (outcome, k, s))
                 \<in> measure (\<lambda>(outcome, k, s). work_left s)"
      by simp
  next
    fix outcome :: outcomes and k :: nat and s :: state and j :: job
    assume running: "worker s = Delivering j"
    let ?ok = "fst (outcome k)" and ?now = "snd (outcome k)"
    have "work_left (delivery_settled ?ok ?now s) < work_left s"
    proof (cases ?ok)
      case True
      with running show ?thesis
        by (simp add: delivery_settled_def work_left_def logged_def job_weight_def)
    next
      case False
      have "work_left (loop_head (retry_or_drop ?now j s))
              \<le> 2 * sum_list (map job_weight (emailQueue (retry_or_drop ?now j s)))"
        by (rule head)
      also have "\<dots> < 2 * (sum_list (map job_weight (emailQueue s)) + job_weight j)"
        by (auto simp: retry_or_drop_def logged_def Let_def job_weight_def)
      finally show ?thesis
        using running False by (simp add: delivery_settled_def work_left_def)
    qed
    then show "((outcome, Suc k, delivery_settled ?ok ?now s), (outcome, k, s))
                 \<in> measure (\<lambda>(outcome, k, s). work_left s)"
      by simp
  }
qed simp

text \<open>
  A whole run of \<open>processQueue\<close> with nothing else touching the queue meanwhile.
\<close>

definition drain :: "outcomes \<Rightarrow> state \<Rightarrow> state" where
  "drain outcome s = run_worker outcome 0 (processQueue s)"

definition getQueueStatus :: "state \<Rightarrow> nat \<times> bool \<times> nat \<times> string" where
  "getQueueStatus s =
     (length (emailQueue s), isProcessing s, length (emailQueue s),
      if isProcessing s then ''active'' else ''idle'')"

definition clearQueue :: "state \<Rightarrow> nat \<times> state" where
  "clearQueue s =
     (let clearedCount = length (emailQueue s)
      in (clearedCount, logged (Info_cleared clearedCount) (s\<lparr>emailQueue := []\<rparr>)))"

subsection \<open>The Email model\<close>

text \<open>
  \<open>trim: true\<close> on \<open>subject\<close> and \<open>content\<close>: white space is taken off both ends when the
  field is set (here the ASCII white space characters).
\<close>

definition is_space :: "char \<Rightarrow> bool" where
  "is_space c = (c \<in> {CHR '' '', CHR 0x09, CHR 0x0A, CHR 0x0B, CHR 0x0C, CHR 0x0D})"

definition trim :: "string \<Rightarrow> string" where
  "trim s = rev (dropWhile is_space (rev (dropWhile is_space s)))"

text \<open>
  \<open>new Email(emailData)\<close> at time \<open>now\<close>, with the fresh \<open>_id\<close> the driver draws:
  the schema's defaults for every path that \<open>emailData\<close> does not give.
\<close>

definition new_Email :: "oid \<Rightarrow> time \<Rightarrow> emailData \<Rightarrow> email_doc" where
  "new_Email fresh now emailData =
     emailData.extend
       (emailData\<lparr>subject := trim (subject emailData), content := trim (content emailData)\<rparr>)
       (email_doc.fields fresh Pending now None None 0 3 None None None)"

definition findById :: "oid \<Rightarrow> email_doc list \<Rightarrow> email_doc option" where
  "findById i docs = find (\<lambda>e. email_id e = i) docs"

fun store_doc :: "email_doc \<Rightarrow> email_doc list \<Rightarrow> email_doc list" where
  "store_doc e [] = [e]"
| "store_doc e (x # xs) = (if email_id x = email_id e then e # xs else x # store_doc e xs)"

text \<open>
  The \<open>pre('save')\<close> hook: \<open>isModified('status')\<close> compares with the document as
  it was loaded or last saved (\<open>stored\<close>); a new document counts as modified.
\<close>

definition pre_save :: "time \<Rightarrow> email_doc option \<Rightarrow> email_doc \<Rightarrow> email_doc" where
  "pre_save now stored e =
     (let modified = (case stored of None \<Rightarrow> True | Some e0 \<Rightarrow> status e0 \<noteq> status e);
          e1 = (if modified \<and> status e = Sent then e\<lparr>sentAt := Some now\<rparr> else e);
          e2 = (if modified \<and> status e1 = Processing then e1\<lparr>processedAt := Some now\<rparr> else e1)
      in e2)"

text \<open>
  \<open>this.save()\<close>: the hook, the timestamps, and the write. The result is the document
  as it is in memory afterwards, and the collection after the write or the error
  thrown when the write fails (\<open>ok = False\<close>).
\<close>

definition save ::
  "time \<Rightarrow> bool \<Rightarrow> email_doc \<Rightarrow> email_doc list \<Rightarrow> email_doc \<times> (error + email_doc list)" where
  "save now ok e docs =
     (let e1 = pre_save now (findById (email_id e) docs) e;
          e2 = e1\<lparr>createdAt := (case createdAt e1 of None \<Rightarrow> Some now | Some c \<Rightarrow> Some c),
                  updatedAt := Some now\<rparr>
      in (e2, if ok then Inr (store_doc e2 docs) else Inl StoreError))"

definition markAsProcessing ::
  "time \<Rightarrow> bool \<Rightarrow> email_doc \<Rightarrow> email_doc list \<Rightarrow> email_doc \<times> (error + email_doc list)" where
  "markAsProcessing now ok e docs =
     save now ok
       (e\<lparr>status := Processing, processedAt := Some now,
          email_doc.attempts := email_doc.attempts e + 1\<rparr>) docs"

definition markAsSent ::
  "time \<Rightarrow> bool \<Rightarrow> email_doc \<Rightarrow> email_doc list \<Rightarrow> email_doc \<times> (error + email_doc list)" where
  "markAsSent now ok e docs = save now ok (e\<lparr>status := Sent, sentAt := Some now\<rparr>) docs"

definition markAsFailed ::
  "time \<Rightarrow> bool \<Rightarrow> string \<Rightarrow> email_doc \<Rightarrow> email_doc list
     \<Rightarrow> email_doc \<times> (error + email_doc list)" where
  "markAsFailed now ok msg e docs =
     save now ok (e\<lparr>status := Failed, errorMessage := Some msg, processedAt := Some now\<rparr>) docs"

definition retry ::
  "time \<Rightarrow> bool \<Rightarrow> email_doc \<Rightarrow> email_doc list \<Rightarrow> email_doc \<times> (error + email_doc list)" where
  "retry now ok e docs =
     (if email_doc.attempts e < email_doc.maxAttempts e
      then save now ok
             (e\<lparr>status := Pending, processedAt := None, sentAt := None,
                errorMessage := None\<rparr>) docs
      else (e, Inl MaximumRetryAttemptsExceeded))"

definition canRetry :: "email_doc \<Rightarrow> bool" where
  "canRetry e = (status e = Failed \<and> email_doc.attempts e < email_doc.maxAttempts e)"

subsection \<open>Queries\<close>

text \<open>
  \<open>find(...).sort(...).limit(n)\<close>. The store compares by the sort keys only; among
  documents with equal keys the order of the collection is kept here. \<open>limit(0)\<close> is no
  limit.
\<close>

fun insort_by :: "('a \<Rightarrow> 'a \<Rightarrow> bool) \<Rightarrow> 'a \<Rightarrow> 'a list \<Rightarrow> 'a list" where
  "insort_by le x [] = [x]"
| "insort_by le x (y # ys) = (if le x y then x # y # ys else y # insort_by le x ys)"

definition sort_by :: "('a \<Rightarrow> 'a \<Rightarrow> bool) \<Rightarrow> 'a list \<Rightarrow> 'a list" where
  "sort_by le xs = foldr (insort_by le) xs []"

definition limit_docs :: "nat \<Rightarrow> 'a list \<Rightarrow> 'a list" where
  "limit_docs n xs = (if n = 0 then xs else take n xs)"

text \<open>
  \<open>priority\<close> is stored as a string, and \<open>sort({ priority: -1 })\<close> compares the stored
  strings.
\<close>

fun priority_string :: "priority \<Rightarrow> string" where
  "priority_string Low = ''low''"
| "priority_string Normal = ''normal''"
| "priority_string High = ''high''"
| "priority_string Urgent = ''urgent''"

definition pending_order :: "email_doc \<Rightarrow> email_doc \<Rightarrow> bool" where
  "pending_order a b =
     (priority_string (priority b) < priority_string (priority a)
      \<or> (priority_string (priority a) = priority_string (priority b)
          \<and> scheduledAt a \<le> scheduledAt b))"

definition getPendingEmails :: "time \<Rightarrow> nat \<Rightarrow> email_doc list \<Rightarrow> email_doc list" where
  "getPendingEmails now limit docs =
     limit_docs limit
       (sort_by pending_order
          (filter (\<lambda>e. status e = Pending \<and> scheduledAt e \<le> now) docs))"

text \<open>
  Dates in ascending order; a missing date sorts first. The service's \<open>getFailedEmails\<close>
  hands its limit to the query of the model and the result back to its caller.
\<close>

fun date_le :: "time option \<Rightarrow> time option \<Rightarrow> bool" where
  "date_le None _ = True"
| "date_le (Some a) None = False"
| "date_le (Some a) (Some b) = (a \<le> b)"

definition getFailedEmails :: "nat \<Rightarrow> email_doc list \<Rightarrow> email_doc list" where
  "getFailedEmails limit docs =
     limit_docs limit
       (sort_by (\<lambda>a b. date_le (updatedAt a) (updatedAt b))
          (filter (\<lambda>e. status e = Failed \<and> email_doc.attempts e < email_doc.maxAttempts e)
             docs))"


subsection \<open>Producers\<close>

record user =
  user_id :: oid
  name :: string
  email :: string

datatype task_priority = Task_low | Task_medium | Task_high | Task_urgent

record task =
  task_id :: oid
  title :: string
  task_priority :: task_priority

text \<open>
  The templates: the subject line as the source builds it; \<open>html\<close> is the rendered
  HTML body (where the names, the dates and the old and new status go), whose text is
  not looked at by the dispatcher.
\<close>

record template =
  template_subject :: string
  template_content :: string

definition welcome_template :: "string \<Rightarrow> user \<Rightarrow> template" where
  "welcome_template html user =
     \<lparr>template_subject = ''Welcome to Task Workflow, '' @ name user @ ''!'',
      template_content = html\<rparr>"

definition taskAssignment_template :: "string \<Rightarrow> task \<Rightarrow> template" where
  "taskAssignment_template html task =
     \<lparr>template_subject = ''New Task Assigned: '' @ title task, template_content = html\<rparr>"

definition taskUpdate_template :: "string \<Rightarrow> task \<Rightarrow> template" where
  "taskUpdate_template html task =
     \<lparr>template_subject = ''Task Status Updated: '' @ title task, template_content = html\<rparr>"

definition taskReminder_template :: "string \<Rightarrow> task \<Rightarrow> template" where
  "taskReminder_template html task =
     \<lparr>template_subject = ''Task Reminder: '' @ title task, template_content = html\<rparr>"

definition taskCompleted_template :: "string \<Rightarrow> task \<Rightarrow> template" where
  "taskCompleted_template html task =
     \<lparr>template_subject = ''Task Completed: '' @ title task, template_content = html\<rparr>"

text \<open>What a producer call reads from its environment.\<close>

record env =
  clock :: time
  math_random :: rat
  fresh_id :: oid
  store_ok :: bool

text \<open>
  The \<open>try { new Email(emailData); await email.save(); ... } catch { ... }\<close> that ends
  every producer: the error of a failed write is logged and not thrown again. \<open>s\<close> is
  the state in which the write settles and the producer is resumed; the two are taken
  as one step.
\<close>

definition save_for_tracking :: "env \<Rightarrow> string \<Rightarrow> emailData \<Rightarrow> state \<Rightarrow> state" where
  "save_for_tracking env operation emailData s =
     (let email = new_Email (fresh_id env) (clock env) emailData
      in case save (clock env) (store_ok env) email (emails s) of
           (saved, Inr docs) \<Rightarrow>
             logged (Email_log operation (Some (email_id saved)) (to emailData))
               (s\<lparr>emails := docs\<rparr>)
         | (_, Inl err) \<Rightarrow> logged (Error_saving operation (message err)) s)"

text \<open>
  A producer is an \<open>async\<close> function, and its arguments may be \<open>null\<close> (the task
  controller hands \<open>User.findById(task.assignedTo)\<close> to \<open>sendTaskUpdateEmail\<close>, which is
  \<open>null\<close> for a task that is not assigned). Its first statement renders the template,
  which reads a property of every argument: on a \<open>null\<close> argument that throws a
  \<open>TypeError\<close> to the caller, before \<open>addToQueue\<close> is called. Otherwise the producer
  calls \<open>addToQueue\<close>, starts the write of the record and awaits it; \<open>meanwhile\<close> is
  what the rest of the process (the loop that is resumed, other calls) does to the
  dispatcher until the write settles. The result is the error thrown, if any, and the
  state when the producer returns.
\<close>

definition sendWelcomeEmail ::
  "env \<Rightarrow> (state \<Rightarrow> state) \<Rightarrow> string \<Rightarrow> user option \<Rightarrow> state \<Rightarrow> (error + unit) \<times> state" where
  "sendWelcomeEmail env meanwhile html user s =
     (case user of
        None \<Rightarrow> (Inl TypeError, s)
      | Some u \<Rightarrow>
          let template = welcome_template html u;
              emailData = \<lparr>to = email u, subject = template_subject template,
                           content = template_content template, type = Welcome,
                           recipient = user_id u, sender = user_id u,
                           relatedTask = None, priority = Normal\<rparr>
          in (Inr (),
              save_for_tracking env ''welcome_queued'' emailData
                (meanwhile (addToQueue (clock env) (math_random env) emailData s))))"

definition sendTaskAssignmentEmail ::
  "env \<Rightarrow> (state \<Rightarrow> state) \<Rightarrow> string \<Rightarrow> task option \<Rightarrow> user option \<Rightarrow> user option \<Rightarrow> state
     \<Rightarrow> (error + unit) \<times> state" where
  "sendTaskAssignmentEmail env meanwhile html task assignee assignedBy s =
     (case (task, assignee, assignedBy) of
        (Some t, Some a, Some b) \<Rightarrow>
          let template = taskAssignment_template html t;
              emailData = \<lparr>to = email a, subject = template_subject template,
                           content = template_content template, type = Task_assignment,
                           recipient = user_id a, sender = user_id b,
                           relatedTask = Some (task_id t),
                           priority = (if task_priority t = Task_urgent then High else Normal)\<rparr>
          in (Inr (),
              save_for_tracking env ''task_assignment_queued'' emailData
                (meanwhile (addToQueue (clock env) (math_random env) emailData s)))
      | _ \<Rightarrow> (Inl TypeError, s))"

definition sendTaskUpdateEmail ::
  "env \<Rightarrow> (state \<Rightarrow> state) \<Rightarrow> string \<Rightarrow> task option \<Rightarrow> user option \<Rightarrow> state
     \<Rightarrow> (error + unit) \<times> state" where
  "sendTaskUpdateEmail env meanwhile html task user s =
     (case (task, user) of
        (Some t, Some u) \<Rightarrow>
          let template = taskUpdate_template html t;
              emailData = \<lparr>to = email u, subject = template_subject template,
                           content = template_content template, type = Task_update,
                           recipient = user_id u, sender = user_id u,
                           relatedTask = Some (task_id t), priority = Low\<rparr>
          in (Inr (),
              save_for_tracking env ''task_update_queued'' emailData
                (meanwhile (addToQueue (clock env) (math_random env) emailData s)))
      | _ \<Rightarrow> (Inl TypeError, s))"

definition sendTaskReminderEmail ::
  "env \<Rightarrow> (state \<Rightarrow> state) \<Rightarrow> string \<Rightarrow> task option \<Rightarrow> user option \<Rightarrow> state
     \<Rightarrow> (error + unit) \<times> state" where
  "sendTaskReminderEmail env meanwhile html task user s =
     (case (task, user) of
        (Some t, Some u) \<Rightarrow>
          let template = taskReminder_template html t;
              emailData = \<lparr>to = email u, subject = template_subject template,
                           content = template_content template, type = Reminder,
                           recipient = user_id u, sender = user_id u,
                           relatedTask = Some (task_id t), priority = Normal\<rparr>
          in (Inr (),
              save_for_tracking env ''task_reminder_queued'' emailData
                (meanwhile (addToQueue (clock env) (math_random env) emailData s)))
      | _ \<Rightarrow> (Inl TypeError, s))"

definition sendTaskCompletionEmail ::
  "env \<Rightarrow> (state \<Rightarrow> state) \<Rightarrow> string \<Rightarrow> task option \<Rightarrow> user option \<Rightarrow> state
     \<Rightarrow> (error + unit) \<times> state" where
  "sendTaskCompletionEmail env meanwhile html task user s =
     (case (task, user) of
        (Some t, Some u) \<Rightarrow>
          let template = taskCompleted_template html t;
              emailData = \<lparr>to = email u, subject = template_subject template,
                           content = template_content template, type = Notification,
                           recipient = user_id u, sender = user_id u,
                           relatedTask = Some (task_id t), priority = Low\<rparr>
          in (Inr (),
              save_for_tracking env ''task_completion_queued'' emailData
                (meanwhile (addToQueue (clock env) (math_random env) emailData s)))
      | _ \<Rightarrow> (Inl TypeError, s))"

subsection \<open>Retrying a failed e-mail\<close>

text \<open>
  \<open>retryFailedEmail\<close> of the service: every error is logged and thrown again. The result
  is the error thrown or the document returned, and the state afterwards.
\<close>

definition retryFailedEmail :: "env \<Rightarrow> oid \<Rightarrow> state \<Rightarrow> (error + email_doc) \<times> state" where
  "retryFailedEmail env emailId s =
     (case findById emailId (emails s) of
        None \<Rightarrow>
          (Inl EmailNotFound, logged (Error_retrying emailId (message EmailNotFound)) s)
      | Some found \<Rightarrow>
          if \<not> canRetry found
          then (Inl EmailCannotBeRetried,
                logged (Error_retrying emailId (message EmailCannotBeRetried)) s)
          else
            (case retry (clock env) (store_ok env) found (emails s) of
               (_, Inl err) \<Rightarrow> (Inl err, logged (Error_retrying emailId (message err)) s)
             | (e, Inr docs) \<Rightarrow>
                 let emailData = \<lparr>to = to e, subject = subject e, content = content e,
                                  type = type e, recipient = recipient e, sender = sender e,
                                  relatedTask = relatedTask e, priority = priority e\<rparr>;
                     s1 = addToQueue (clock env) (math_random env) emailData (s\<lparr>emails := docs\<rparr>)
                 in (Inr e, logged (Info_retried emailId (to e)) s1)))"

subsection \<open>Batch processing of pending e-mails\<close>

text \<open>
  What the controller's \<open>simulateEmailProcessing\<close> reads from its environment for one
  e-mail of the batch: the time and the success of each write it may make, and whether
  \<open>Math.random() < 0.9\<close>.
\<close>

record batch_env =
  processing_at :: time
  processing_ok :: bool
  delivered :: bool
  outcome_at :: time
  outcome_ok :: bool
  recovery_at :: time
  recovery_ok :: bool

record result =
  emailId :: oid
  result_status :: email_status
  result_recipient :: string
  result_error :: "string option"

record batch =
  batch_emails :: "email_doc list"
  batch_logs :: "log_entry list"
  processedCount :: nat
  results :: "result list"

text \<open>
  The \<open>catch\<close> block of the batch loop: the document as it is in memory when the error is
  thrown is marked failed; an error of that write is logged only.
\<close>

definition recover :: "batch_env \<Rightarrow> error \<Rightarrow> email_doc \<Rightarrow> batch \<Rightarrow> batch" where
  "recover benv err e b =
     (let b1 = (case markAsFailed (recovery_at benv) (recovery_ok benv) (message err) e
                       (batch_emails b) of
                  (_, Inr docs) \<Rightarrow> b\<lparr>batch_emails := docs\<rparr>
                | (_, Inl markError) \<Rightarrow>
                    b\<lparr>batch_logs := batch_logs b @ [Error_marking_failed (message markError)]\<rparr>)
      in b1\<lparr>results := results b1 @
               [\<lparr>emailId = email_id e, result_status = Failed, result_recipient = to e,
                 result_error = Some (message err)\<rparr>]\<rparr>)"

definition process_pending :: "batch_env \<Rightarrow> email_doc \<Rightarrow> batch \<Rightarrow> batch" where
  "process_pending benv e b =
     (case markAsProcessing (processing_at benv) (processing_ok benv) e (batch_emails b) of
        (e1, Inl err) \<Rightarrow> recover benv err e1 b
      | (e1, Inr docs1) \<Rightarrow>
          if delivered benv
          then (case markAsSent (outcome_at benv) (outcome_ok benv) e1 docs1 of
                  (e2, Inl err) \<Rightarrow> recover benv err e2 (b\<lparr>batch_emails := docs1\<rparr>)
                | (e2, Inr docs2) \<Rightarrow>
                    b\<lparr>batch_emails := docs2, processedCount := processedCount b + 1,
                      results := results b @
                        [\<lparr>emailId = email_id e2, result_status = Sent,
                          result_recipient = to e2, result_error = None\<rparr>]\<rparr>)
          else (case markAsFailed (outcome_at benv) (outcome_ok benv)
                       ''Simulated processing failure'' e1 docs1 of
                  (e2, Inl err) \<Rightarrow> recover benv err e2 (b\<lparr>batch_emails := docs1\<rparr>)
                | (e2, Inr docs2) \<Rightarrow>
                    b\<lparr>batch_emails := docs2, processedCount := processedCount b + 1,
                      results := results b @
                        [\<lparr>emailId = email_id e2, result_status = Failed,
                          result_recipient = to e2,
                          result_error = Some ''Simulated processing failure''\<rparr>]\<rparr>))"

text \<open>\<open>for (const email of pendingEmails)\<close>; the \<open>k\<close>-th e-mail reads \<open>benv k\<close>.\<close>

fun process_batch :: "(nat \<Rightarrow> batch_env) \<Rightarrow> nat \<Rightarrow> email_doc list \<Rightarrow> batch \<Rightarrow> batch" where
  "process_batch benv k [] b = b"
| "process_batch benv k (e # pendingEmails) b =
     process_batch benv (Suc k) pendingEmails (process_pending (benv k) e b)"

datatype response =
  Bad_request
  | No_pending_emails
  | Completed nat "result list" nat

text \<open>
  The request handler. \<open>batchSize\<close> is the field of the request body, if given; the
  validation schema wants an integer from 1 to 50 and defaults to 10.
\<close>

definition simulateEmailProcessing ::
  "(nat \<Rightarrow> batch_env) \<Rightarrow> time \<Rightarrow> int option \<Rightarrow> state \<Rightarrow> response \<times> state" where
  "simulateEmailProcessing benv now body s =
     (let n = (case body of None \<Rightarrow> 10 | Some n \<Rightarrow> n)
      in if n < 1 \<or> 50 < n then (Bad_request, s)
         else
           (let batchSize = nat n;
                pendingEmails = getPendingEmails now batchSize (emails s)
            in if length pendingEmails = 0 then (No_pending_emails, s)
               else
                 (let b = process_batch benv 0 pendingEmails
                            \<lparr>batch_emails = emails s, batch_logs = logs s,
                             processedCount = 0, results = []\<rparr>
                  in (Completed (processedCount b) (results b) batchSize,
                      s\<lparr>emails := batch_emails b, logs := batch_logs b\<rparr>))))"

subsection \<open>Histories of one record\<close>

text \<open>
  A method of the model called on the record with a given \<open>_id\<close>, as the callers do:
  the document is loaded, the method is called on it, and the method saves it. A record
  that is not there, and a method that throws, leave the collection as it is.
\<close>

datatype ledger_call = MarkAsProcessing | MarkAsSent | MarkAsFailed string | Retry

definition call_method :: "oid \<Rightarrow> time \<Rightarrow> ledger_call \<Rightarrow> email_doc list \<Rightarrow> email_doc list" where
  "call_method i now m docs =
     (case findById i docs of
        None \<Rightarrow> docs
      | Some e \<Rightarrow>
          (case snd (case m of
                       MarkAsProcessing \<Rightarrow> markAsProcessing now True e docs
                     | MarkAsSent \<Rightarrow> markAsSent now True e docs
                     | MarkAsFailed msg \<Rightarrow> markAsFailed now True msg e docs
                     | Retry \<Rightarrow> retry now True e docs) of
             Inl err \<Rightarrow> docs
           | Inr docs' \<Rightarrow> docs'))"

fun call_methods :: "oid \<Rightarrow> (time \<times> ledger_call) list \<Rightarrow> email_doc list \<Rightarrow> email_doc list" where
  "call_methods i [] docs = docs"
| "call_methods i ((now, m) # ms) docs = call_methods i ms (call_method i now m docs)"

text \<open>
  The histories in which \<open>markAsProcessing\<close> is called on the record only while it is
  pending: the batch processing calls it on the result of \<open>getPendingEmails\<close>.
\<close>

fun processing_when_pending ::
  "oid \<Rightarrow> (time \<times> ledger_call) list \<Rightarrow> email_doc list \<Rightarrow> bool" where
  "processing_when_pending i [] docs = True"
| "processing_when_pending i ((now, m) # ms) docs =
     ((m = MarkAsProcessing \<longrightarrow> map_option status (findById i docs) = Some Pending)
      \<and> processing_when_pending i ms (call_method i now m docs))"

subsection \<open>Observing the dispatcher\<close>

text \<open>
  The jobs the dispatcher holds: the one in delivery, then the queue. The deliveries
  that a log records (the \<open>id\<close> of each job at \<open>Processing email job\<close>), and how often it
  records that the job with a given \<open>id\<close> was put back into the queue.
\<close>

definition jobs_held :: "state \<Rightarrow> job list" where
  "jobs_held s = (case worker s of Delivering j \<Rightarrow> [j] | _ \<Rightarrow> []) @ emailQueue s"

fun deliveries :: "log_entry list \<Rightarrow> rat list" where
  "deliveries [] = []"
| "deliveries (Info_processing i t r # ls) = i # deliveries ls"
| "deliveries (l # ls) = deliveries ls"

fun requeues :: "rat \<Rightarrow> log_entry list \<Rightarrow> nat" where
  "requeues i [] = 0"
| "requeues i (Warn_requeued i' a m # ls) = (if i' = i then 1 else 0) + requeues i ls"
| "requeues i (l # ls) = requeues i ls"

definition logged_since :: "state \<Rightarrow> state \<Rightarrow> log_entry list" where
  "logged_since s s' = drop (length (logs s)) (logs s')"

text \<open>
  How often the job with a given \<open>id\<close> can still be put back: what is left of
  \<open>maxAttempts\<close> for every job of that \<open>id\<close> that the dispatcher holds.
\<close>

definition retries_left :: "rat \<Rightarrow> job list \<Rightarrow> nat" where
  "retries_left i js =
     sum_list (map (\<lambda>j. job.maxAttempts j - job.attempts j) (filter (\<lambda>j. job_id j = i) js))"

text \<open>
  What the retry budget of a record asks for: no more attempts than \<open>maxAttempts\<close>, and
  an attempt left whenever the record is pending.
\<close>

definition within_budget :: "email_doc \<Rightarrow> bool" where
  "within_budget e =
     (email_doc.attempts e \<le> email_doc.maxAttempts e
      \<and> (status e = Pending \<longrightarrow> email_doc.attempts e < email_doc.maxAttempts e))"

text \<open>Where a run ends: the worker idle, the queue empty, the flag down.\<close>

definition settled :: "state \<Rightarrow> bool" where
  "settled s = (worker s = Idle \<and> emailQueue s = [] \<and> \<not> isProcessing s)"

subsection \<open>Sample values\<close>

text \<open>The dispatcher when the module is loaded, on an empty collection.\<close>

definition initial :: state where
  "initial = \<lparr>emailQueue = [], isProcessing = False, worker = Idle, emails = [], logs = []\<rparr>"

definition alice :: user where
  "alice = \<lparr>user_id = 1, name = ''Alice'', email = ''alice@x.com''\<rparr>"

definition at_noon :: env where
  "at_noon = \<lparr>clock = 1000, math_random = 1 / 2, fresh_id = 7, store_ok = True\<rparr>"

definition store_down :: env where
  "store_down = \<lparr>clock = 1000, math_random = 1 / 2, fresh_id = 7, store_ok = False\<rparr>"

definition all_rejected :: outcomes where
  "all_rejected k = (False, 2000 + k)"

text \<open>A batch in which every write succeeds and no delivery does.\<close>

definition none_delivered :: "time \<Rightarrow> nat \<Rightarrow> batch_env" where
  "none_delivered t k =
     \<lparr>processing_at = t + 10 * k, processing_ok = True, delivered = False,
      outcome_at = t + 10 * k + 1, outcome_ok = True,
      recovery_at = t + 10 * k + 2, recovery_ok = True\<rparr>"

definition sample_data :: "priority \<Rightarrow> emailData" where
  "sample_data p =
     \<lparr>to = ''alice@x.com'', subject = ''s'', content = ''c'', type = Task_update,
      recipient = 1, sender = 1, relatedTask = None, priority = p\<rparr>"

definition urgent_task :: task where
  "urgent_task = \<lparr>task_id = 3, title = ''Fix the build'', task_priority = Task_urgent\<rparr>"

definition a_little_later :: env where
  "a_little_later = \<lparr>clock = 1500, math_random = 1 / 4, fresh_id = 8, store_ok = True\<rparr>"

text \<open>
  An urgent task is assigned (an e-mail of priority \<open>high\<close>), then its status changes
  (an e-mail of priority \<open>low\<close>). Nothing happens to the dispatcher while the producers
  await their writes.
\<close>

definition high_then_low :: state where
  "high_then_low =
     snd (sendTaskUpdateEmail a_little_later id [] (Some urgent_task) (Some alice)
       (snd (sendTaskAssignmentEmail at_noon id [] (Some urgent_task) (Some alice)
          (Some alice) initial)))"

text \<open>A batch of up to five pending e-mails at time \<open>t\<close>, none of them delivered.\<close>

definition fail_in_batch :: "time \<Rightarrow> state \<Rightarrow> state" where
  "fail_in_batch t s = snd (simulateEmailProcessing (none_delivered t) t (Some 5) s)"

definition both_failed :: state where
  "both_failed = fail_in_batch 3000 high_then_low"

text \<open>
  A welcome e-mail that fails in three batches, and is retried by the operator after the
  first and after the second.
\<close>

definition exhausted :: state where
  "exhausted =
     fail_in_batch 5000 (snd (retryFailedEmail at_noon 7
       (fail_in_batch 4000 (snd (retryFailedEmail at_noon 7
          (fail_in_batch 3000
             (snd (sendWelcomeEmail at_noon id [] (Some alice) initial))))))))"

definition welcomed :: state where
  "welcomed = snd (sendWelcomeEmail at_noon id [] (Some alice) initial)"

definition fails_and_is_retried :: "(time \<times> ledger_call) list" where
  "fails_and_is_retried =
     [(2000, MarkAsProcessing), (2001, MarkAsFailed ''Simulated processing failure''),
      (2002, Retry), (2003, MarkAsProcessing)]"

definition processing_four_times :: "(time \<times> ledger_call) list" where
  "processing_four_times =
     [(2000, MarkAsProcessing), (2001, MarkAsProcessing), (2002, MarkAsProcessing),
      (2003, MarkAsProcessing)]"

text \<open>
  A queue in which a job of priority \<open>low\<close> is ahead of a job of priority \<open>urgent\<close>, and
  the dispatcher once \<open>processQueue\<close> has taken the first of them.
\<close>

definition low_job :: job where
  "low_job = emailData.extend (sample_data Low) (job.fields 1 100 0 3)"

definition urgent_job :: job where
  "urgent_job = emailData.extend (sample_data Urgent) (job.fields 2 200 0 3)"

definition low_before_urgent :: state where
  "low_before_urgent = initial\<lparr>emailQueue := [low_job, urgent_job]\<rparr>"

definition delivering_low :: state where
  "delivering_low = processQueue low_before_urgent"

text \<open>The welcome e-mail of \<open>welcomed\<close>, three times rejected.\<close>

definition rejected_thrice :: state where
  "rejected_thrice =
     delivery_settled False 2002 (delivery_settled False 2001
       (delivery_settled False 2000 welcomed))"

text \<open>
  The welcome e-mail of \<open>welcomed\<close> is delivered from the queue; its record, still
  pending, then fails in a batch, is retried by the operator, and every delivery of the
  job that the retry puts into the queue is rejected.
\<close>

definition all_resolved :: outcomes where
  "all_resolved k = (True, 2000 + k)"

definition in_the_evening :: env where
  "in_the_evening = \<lparr>clock = 4000, math_random = 3 / 4, fresh_id = 9, store_ok = True\<rparr>"

definition delivered_then_failed :: state where
  "delivered_then_failed = fail_in_batch 3000 (run_worker all_resolved 0 welcomed)"

definition retried_and_rejected :: state where
  "retried_and_rejected =
     run_worker all_rejected 0 (snd (retryFailedEmail in_the_evening 7 delivered_then_failed))"

section \<open>Properties\<close>

lemmas model_defs =
  initial_def alice_def at_noon_def store_down_def all_rejected_def none_delivered_def
  sample_data_def urgent_task_def a_little_later_def high_then_low_def fail_in_batch_def
  both_failed_def exhausted_def welcomed_def rejected_thrice_def
  all_resolved_def in_the_evening_def delivered_then_failed_def retried_and_rejected_def
  sendWelcomeEmail_def sendTaskUpdateEmail_def sendTaskAssignmentEmail_def
  welcome_template_def taskUpdate_template_def taskAssignment_template_def
  save_for_tracking_def addToQueue_def processQueue_def loop_head_def logged_def
  delivery_settled_def retry_or_drop_def delay_elapsed_def
  new_Email_def save_def pre_save_def findById_def trim_def is_space_def
  emailData.extend_def job.fields_def email_doc.fields_def
  simulateEmailProcessing_def getPendingEmails_def getFailedEmails_def limit_docs_def
  sort_by_def pending_order_def process_pending_def recover_def
  markAsProcessing_def markAsSent_def markAsFailed_def retry_def canRetry_def
  retryFailedEmail_def Let_def

subsection \<open>Sorting\<close>

lemma set_insort_by: "set (insort_by le x xs) = insert x (set xs)"
  by (induction xs) auto

lemma set_sort_by: "set (sort_by le xs) = set xs"
  unfolding sort_by_def by (induction xs) (simp_all add: set_insort_by)

lemma length_insort_by: "length (insort_by le x xs) = Suc (length xs)"
  by (induction xs) auto

lemma length_sort_by: "length (sort_by le xs) = length xs"
  unfolding sort_by_def by (induction xs) (simp_all add: length_insort_by)

lemma sorted_insort_by:
  assumes total: "\<And>a b. le a b \<or> le b a"
    and trans: "\<And>a b c. le a b \<Longrightarrow> le b c \<Longrightarrow> le a c"
  shows "sorted_wrt le xs \<Longrightarrow> sorted_wrt le (insort_by le x xs)"
proof (induction xs)
  case Nil
  then show ?case by simp
next
  case (Cons y ys)
  show ?case
  proof (cases "le x y")
    case True
    with Cons.prems trans show ?thesis by auto
  next
    case False
    with total have "le y x" by blast
    with Cons False show ?thesis by (auto simp: set_insort_by)
  qed
qed

lemma sorted_sort_by:
  assumes total: "\<And>a b. le a b \<or> le b a"
    and trans: "\<And>a b c. le a b \<Longrightarrow> le b c \<Longrightarrow> le a c"
  shows "sorted_wrt le (sort_by le xs)"
  unfolding sort_by_def
  by (induction xs) (simp_all add: sorted_insort_by [OF total trans])

lemma date_le_total: "date_le a b \<or> date_le b a"
  by (cases a; cases b) auto

lemma date_le_trans: "date_le a b \<Longrightarrow> date_le b c \<Longrightarrow> date_le a c"
  by (cases a; cases b; cases c) auto

subsection \<open>The drain loop\<close>

declare run_worker.simps [simp del]

lemma run_worker_Idle: "worker s = Idle \<Longrightarrow> run_worker outcome k s = s"
  by (subst run_worker.simps) simp

lemma run_worker_Pausing:
  "worker s = Pausing \<Longrightarrow> run_worker outcome k s = run_worker outcome k (delay_elapsed s)"
  by (subst run_worker.simps) simp

lemma run_worker_Delivering:
  "worker s = Delivering j \<Longrightarrow>
   run_worker outcome k s =
     run_worker outcome (Suc k) (delivery_settled (fst (outcome k)) (snd (outcome k)) s)"
  by (subst run_worker.simps) simp

lemma loop_head_Nil:
  "emailQueue s = [] \<Longrightarrow>
   loop_head s = s\<lparr>isProcessing := False, worker := Idle, logs := logs s @ [Info_completed]\<rparr>"
  by (simp add: loop_head_def logged_def)

lemma loop_head_Cons:
  "emailQueue s = j # q \<Longrightarrow>
   loop_head s =
     s\<lparr>emailQueue := q, worker := Delivering j,
       logs := logs s @ [Info_processing (job_id j) (type j) (to j)]\<rparr>"
  by (simp add: loop_head_def logged_def)

text \<open>The drain loop never writes to the collection.\<close>

lemma emails_loop_head: "emails (loop_head s) = emails s"
  by (cases "emailQueue s") (simp_all add: loop_head_Nil loop_head_Cons)

lemma emails_processQueue: "emails (processQueue s) = emails s"
  by (simp add: processQueue_def emails_loop_head logged_def)

lemma emails_retry_or_drop: "emails (retry_or_drop now j s) = emails s"
  by (simp add: retry_or_drop_def logged_def Let_def)

lemma emails_delivery_settled: "emails (delivery_settled ok now s) = emails s"
  by (cases "worker s")
     (simp_all add: delivery_settled_def emails_loop_head emails_retry_or_drop logged_def)

lemma emails_delay_elapsed: "emails (delay_elapsed s) = emails s"
  by (cases "worker s") (simp_all add: delay_elapsed_def emails_loop_head)

lemma emails_run_worker: "emails (run_worker outcome k s) = emails s"
proof (induction outcome k s rule: run_worker.induct)
  case (1 outcome k s)
  show ?case
  proof (cases "worker s")
    case Idle
    then show ?thesis by (simp add: run_worker_Idle)
  next
    case (Delivering j)
    with "1.IH" show ?thesis
      by (auto simp: run_worker_Delivering emails_delivery_settled)
  next
    case Pausing
    with "1.IH" show ?thesis
      by (auto simp: run_worker_Pausing emails_delay_elapsed)
  qed
qed

lemma emails_drain: "emails (drain outcome s) = emails s"
  by (simp add: drain_def emails_run_worker emails_processQueue)

lemma emails_addToQueue: "emails (addToQueue now rnd d s) = emails s"
  by (simp add: addToQueue_def Let_def emails_processQueue logged_def)

lemma settled_loop_head: "worker (loop_head s) = Idle \<Longrightarrow> settled (loop_head s)"
  by (cases "emailQueue s") (simp_all add: loop_head_Nil loop_head_Cons settled_def)

lemma settled_delay_elapsed:
  "worker s = Pausing \<Longrightarrow> worker (delay_elapsed s) = Idle \<Longrightarrow> settled (delay_elapsed s)"
  by (simp add: delay_elapsed_def settled_loop_head)

lemma settled_delivery_settled:
  "worker s = Delivering j \<Longrightarrow> worker (delivery_settled ok now s) = Idle \<Longrightarrow>
   settled (delivery_settled ok now s)"
  by (cases ok) (simp_all add: delivery_settled_def settled_loop_head logged_def)

lemma run_worker_settles:
  "worker s = Idle \<longrightarrow> settled s \<Longrightarrow> settled (run_worker outcome k s)"
proof (induction outcome k s rule: run_worker.induct)
  case (1 outcome k s)
  show ?case
  proof (cases "worker s")
    case Idle
    with "1.prems" show ?thesis by (simp add: run_worker_Idle)
  next
    case (Delivering j)
    with "1.IH" show ?thesis
      by (auto simp: run_worker_Delivering settled_delivery_settled)
  next
    case Pausing
    with "1.IH" show ?thesis
      by (auto simp: run_worker_Pausing settled_delay_elapsed)
  qed
qed

lemma processQueue_worker:
  "worker s = Idle \<Longrightarrow> \<not> isProcessing s \<Longrightarrow>
   worker (processQueue s) = Idle \<longrightarrow> settled (processQueue s)"
  by (cases "emailQueue s") (simp_all add: processQueue_def loop_head_Cons logged_def settled_def)

lemma drain_settles:
  "worker s = Idle \<Longrightarrow> \<not> isProcessing s \<Longrightarrow> settled (drain outcome s)"
  unfolding drain_def by (rule run_worker_settles) (rule processQueue_worker)


text \<open>The log only grows.\<close>

lemma logs_loop_head:
  "logs (loop_head s) =
     logs s @ [case emailQueue s of [] \<Rightarrow> Info_completed
               | j # q \<Rightarrow> Info_processing (job_id j) (type j) (to j)]"
  by (cases "emailQueue s") (simp_all add: loop_head_Nil loop_head_Cons)

lemma logs_retry_or_drop:
  "logs (retry_or_drop now j s) =
     logs s @ [Error_processing (job_id j) (message SimulatedFailure),
               if job.attempts j < job.maxAttempts j
               then Warn_requeued (job_id j) (job.attempts j + 1) (job.maxAttempts j)
               else Error_failed_permanently (job_id j) (job.maxAttempts j)]"
  by (simp add: retry_or_drop_def logged_def Let_def)

lemma logs_run_worker: "\<exists>ext. logs (run_worker outcome k s) = logs s @ ext"
proof (induction outcome k s rule: run_worker.induct)
  case (1 outcome k s)
  show ?case
  proof (cases "worker s")
    case Idle
    then show ?thesis by (simp add: run_worker_Idle)
  next
    case (Delivering j)
    let ?s' = "delivery_settled (fst (outcome k)) (snd (outcome k)) s"
    have "\<exists>e. logs ?s' = logs s @ e"
      using Delivering
      by (cases "fst (outcome k)")
         (simp_all add: delivery_settled_def logged_def logs_loop_head logs_retry_or_drop)
    then obtain e where "logs ?s' = logs s @ e" ..
    moreover from "1.IH"(1) [OF Delivering]
    obtain ext where "logs (run_worker outcome (Suc k) ?s') = logs ?s' @ ext" ..
    ultimately show ?thesis
      by (simp add: run_worker_Delivering [OF Delivering])
  next
    case Pausing
    then have "\<exists>e. logs (delay_elapsed s) = logs s @ e"
      by (simp add: delay_elapsed_def logs_loop_head)
    then obtain e where "logs (delay_elapsed s) = logs s @ e" ..
    moreover from "1.IH"(2) [OF Pausing]
    obtain ext where "logs (run_worker outcome k (delay_elapsed s)) = logs (delay_elapsed s) @ ext" ..
    ultimately show ?thesis
      by (simp add: run_worker_Pausing [OF Pausing])
  qed
qed

lemma logged_since_run_worker:
  assumes "logs s1 = logs s @ e"
  shows "logged_since s (run_worker outcome k s1) = e @ logged_since s1 (run_worker outcome k s1)"
proof -
  from logs_run_worker obtain ext where "logs (run_worker outcome k s1) = logs s1 @ ext"
    by blast
  with assms show ?thesis by (simp add: logged_since_def)
qed

lemma deliveries_append: "deliveries (xs @ ys) = deliveries xs @ deliveries ys"
  by (induction xs rule: deliveries.induct) simp_all

lemma requeues_append: "requeues i (xs @ ys) = requeues i xs + requeues i ys"
  by (induction i xs rule: requeues.induct) simp_all

lemma retries_left_Nil: "retries_left i [] = 0"
  by (simp add: retries_left_def)

lemma retries_left_Cons:
  "retries_left i (j # js) =
     (if job_id j = i then job.maxAttempts j - job.attempts j else 0) + retries_left i js"
  by (simp add: retries_left_def)

lemma retries_left_append: "retries_left i (xs @ ys) = retries_left i xs + retries_left i ys"
  by (simp add: retries_left_def)

text \<open>
  The jobs of the queue are delivered next, in the order of the queue. \<open>at_head s\<close> is a
  state about to take the next turn of the loop.
\<close>

lemma fifo_at_head:
  assumes "take (length (emailQueue (loop_head s)))
             (deliveries (logged_since (loop_head s) (run_worker outcome k (loop_head s))))
           = map job_id (emailQueue (loop_head s))"
  shows "take (length (emailQueue s))
           (deliveries (logged_since s (run_worker outcome k (loop_head s))))
         = map job_id (emailQueue s)"
proof (cases "emailQueue s")
  case Nil
  then show ?thesis by simp
next
  case (Cons j q)
  have "logged_since s (run_worker outcome k (loop_head s))
        = [Info_processing (job_id j) (type j) (to j)]
          @ logged_since (loop_head s) (run_worker outcome k (loop_head s))"
    by (rule logged_since_run_worker) (simp add: logs_loop_head Cons)
  with assms Cons show ?thesis
    by (simp add: loop_head_Cons)
qed

lemma fifo_run_worker:
  assumes "worker s = Idle \<longrightarrow> emailQueue s = []"
  shows "take (length (emailQueue s)) (deliveries (logged_since s (run_worker outcome k s)))
         = map job_id (emailQueue s)"
  using assms
proof (induction outcome k s rule: run_worker.induct)
  case (1 outcome k s)
  have idle_head: "worker (loop_head s') = Idle \<longrightarrow> emailQueue (loop_head s') = []" for s'
    by (cases "emailQueue s'") (simp_all add: loop_head_Nil loop_head_Cons)
  show ?case
  proof (cases "worker s")
    case Idle
    with "1.prems" show ?thesis by simp
  next
    case Pausing
    with "1.IH" idle_head
    have "take (length (emailQueue (loop_head s)))
             (deliveries (logged_since (loop_head s) (run_worker outcome k (loop_head s))))
           = map job_id (emailQueue (loop_head s))"
      by (simp add: delay_elapsed_def)
    from fifo_at_head [OF this] Pausing show ?thesis
      by (simp add: run_worker_Pausing delay_elapsed_def)
  next
    case (Delivering j)
    let ?ok = "fst (outcome k)" and ?now = "snd (outcome k)"
    show ?thesis
    proof (cases ?ok)
      case True
      let ?s' = "delivery_settled ?ok ?now s"
      have s': "?s' = logged (Info_processed (job_id j) (type j) (to j)) (s\<lparr>worker := Pausing\<rparr>)"
        using True Delivering by (simp add: delivery_settled_def)
      then have "logs ?s' = logs s @ [Info_processed (job_id j) (type j) (to j)]"
        by (simp add: logged_def)
      from logged_since_run_worker [OF this]
      have "deliveries (logged_since s (run_worker outcome (Suc k) ?s'))
            = deliveries (logged_since ?s' (run_worker outcome (Suc k) ?s'))"
        by (simp add: deliveries_append)
      moreover have "take (length (emailQueue ?s'))
             (deliveries (logged_since ?s' (run_worker outcome (Suc k) ?s')))
           = map job_id (emailQueue ?s')"
        using "1.IH" Delivering s' by (simp add: logged_def)
      ultimately show ?thesis
        using Delivering s' by (simp add: run_worker_Delivering logged_def)
    next
      case False
      let ?s1 = "retry_or_drop ?now j s"
      have s': "delivery_settled ?ok ?now s = loop_head ?s1"
        using False Delivering by (simp add: delivery_settled_def)
      with "1.IH" Delivering idle_head
      have "take (length (emailQueue (loop_head ?s1)))
             (deliveries (logged_since (loop_head ?s1)
                (run_worker outcome (Suc k) (loop_head ?s1))))
           = map job_id (emailQueue (loop_head ?s1))"
        by simp
      from fifo_at_head [OF this]
      have at_s1: "take (length (emailQueue ?s1))
             (deliveries (logged_since ?s1 (run_worker outcome (Suc k) (loop_head ?s1))))
           = map job_id (emailQueue ?s1)" .
      have "\<exists>e. logs (loop_head ?s1) = logs ?s1 @ e"
        by (simp add: logs_loop_head)
      then obtain e where "logs (loop_head ?s1) = logs ?s1 @ e" ..
      have "logs (loop_head ?s1) = logs s @ (drop (length (logs s)) (logs ?s1) @ e)"
        using \<open>logs (loop_head ?s1) = logs ?s1 @ e\<close> by (simp add: logs_retry_or_drop)
      have since: "deliveries (logged_since s (run_worker outcome (Suc k) (loop_head ?s1)))
            = deliveries (logged_since ?s1 (run_worker outcome (Suc k) (loop_head ?s1)))"
      proof -
        obtain ext where ext: "logs (run_worker outcome (Suc k) (loop_head ?s1))
              = logs (loop_head ?s1) @ ext"
          using logs_run_worker by blast
        show ?thesis
          unfolding logged_since_def ext
          by (simp add: logs_loop_head logs_retry_or_drop deliveries_append)
      qed
      have prefix: "take (length (emailQueue s)) (emailQueue ?s1) = emailQueue s"
        by (simp add: retry_or_drop_def logged_def Let_def)
      have "take (length (emailQueue s))
              (deliveries (logged_since ?s1 (run_worker outcome (Suc k) (loop_head ?s1))))
            = take (length (emailQueue s)) (take (length (emailQueue ?s1))
                (deliveries (logged_since ?s1 (run_worker outcome (Suc k) (loop_head ?s1)))))"
        by (simp add: retry_or_drop_def logged_def Let_def min_def)
      also have "\<dots> = take (length (emailQueue s)) (map job_id (emailQueue ?s1))"
        by (simp only: at_s1)
      also have "\<dots> = map job_id (emailQueue s)"
        using prefix by (simp add: take_map)
      finally show ?thesis
        using Delivering s' since by (simp add: run_worker_Delivering)
    qed
  qed
qed


lemma jobs_held_loop_head: "jobs_held (loop_head s) = emailQueue s"
  by (cases "emailQueue s") (simp_all add: loop_head_Nil loop_head_Cons jobs_held_def)

lemma requeues_run_worker:
  "requeues i (logged_since s (run_worker outcome k s)) \<le> retries_left i (jobs_held s)"
proof (induction outcome k s rule: run_worker.induct)
  case (1 outcome k s)
  show ?case
  proof (cases "worker s")
    case Idle
    then show ?thesis by (simp add: run_worker_Idle logged_since_def)
  next
    case Pausing
    let ?s' = "delay_elapsed s"
    have s': "?s' = loop_head s"
      using Pausing by (simp add: delay_elapsed_def)
    have "logged_since s (run_worker outcome k ?s')
          = [case emailQueue s of [] \<Rightarrow> Info_completed
             | j # q \<Rightarrow> Info_processing (job_id j) (type j) (to j)]
            @ logged_since ?s' (run_worker outcome k ?s')"
      by (rule logged_since_run_worker) (simp add: s' logs_loop_head)
    then have "requeues i (logged_since s (run_worker outcome k ?s'))
               = requeues i (logged_since ?s' (run_worker outcome k ?s'))"
      by (cases "emailQueue s") (simp_all add: requeues_append)
    also have "\<dots> \<le> retries_left i (jobs_held ?s')"
      by (rule "1.IH"(2) [OF Pausing])
    also have "jobs_held ?s' = jobs_held s"
      using Pausing by (simp add: s' jobs_held_loop_head) (simp add: jobs_held_def)
    finally show ?thesis
      by (simp add: run_worker_Pausing [OF Pausing])
  next
    case (Delivering j)
    let ?ok = "fst (outcome k)" and ?now = "snd (outcome k)"
    let ?s' = "delivery_settled ?ok ?now s"
    have IH: "requeues i (logged_since ?s' (run_worker outcome (Suc k) ?s'))
              \<le> retries_left i (jobs_held ?s')"
      by (rule "1.IH"(1) [OF Delivering])
    have held: "jobs_held s = j # emailQueue s"
      using Delivering by (simp add: jobs_held_def)
    show ?thesis
    proof (cases ?ok)
      case True
      have s': "?s' = logged (Info_processed (job_id j) (type j) (to j)) (s\<lparr>worker := Pausing\<rparr>)"
        using True Delivering by (simp add: delivery_settled_def)
      then have "logs ?s' = logs s @ [Info_processed (job_id j) (type j) (to j)]"
        by (simp add: logged_def)
      from logged_since_run_worker [OF this]
      have "requeues i (logged_since s (run_worker outcome (Suc k) ?s'))
            = requeues i (logged_since ?s' (run_worker outcome (Suc k) ?s'))"
        by (simp add: requeues_append)
      also note IH
      also have "jobs_held ?s' = emailQueue s"
        by (simp add: s' jobs_held_def logged_def)
      finally show ?thesis
        by (simp add: run_worker_Delivering [OF Delivering] held retries_left_Cons)
    next
      case False
      let ?s1 = "retry_or_drop ?now j s"
      let ?e = "[Error_processing (job_id j) (message SimulatedFailure),
               if job.attempts j < job.maxAttempts j
               then Warn_requeued (job_id j) (job.attempts j + 1) (job.maxAttempts j)
               else Error_failed_permanently (job_id j) (job.maxAttempts j),
               case emailQueue ?s1 of [] \<Rightarrow> Info_completed
               | j # q \<Rightarrow> Info_processing (job_id j) (type j) (to j)]"
      have s': "?s' = loop_head ?s1"
        using False Delivering by (simp add: delivery_settled_def)
      have "logs ?s' = logs s @ ?e"
        by (simp add: s' logs_loop_head logs_retry_or_drop)
      from logged_since_run_worker [OF this]
      have "requeues i (logged_since s (run_worker outcome (Suc k) ?s'))
            = requeues i ?e + requeues i (logged_since ?s' (run_worker outcome (Suc k) ?s'))"
        by (simp only: requeues_append)
      also have "\<dots> \<le> requeues i ?e + retries_left i (jobs_held ?s')"
        using IH by simp
      also have "jobs_held ?s' = emailQueue ?s1"
        by (simp add: s' jobs_held_loop_head)
      also have "requeues i ?e + retries_left i (emailQueue ?s1) \<le> retries_left i (j # emailQueue s)"
      proof -
        have third: "requeues i [case emailQueue ?s1 of [] \<Rightarrow> Info_completed
               | j # q \<Rightarrow> Info_processing (job_id j) (type j) (to j)] = 0"
          by (cases "emailQueue ?s1") simp_all
        show ?thesis
        proof (cases "job.attempts j < job.maxAttempts j")
          case True
          then have "emailQueue ?s1
                     = emailQueue s @ [j\<lparr>job.attempts := job.attempts j + 1, addedAt := ?now\<rparr>]"
            by (simp add: retry_or_drop_def logged_def Let_def)
          with True third show ?thesis
            by (auto simp: retries_left_Cons retries_left_append retries_left_Nil)
        next
          case False
          then have "emailQueue ?s1 = emailQueue s"
            by (simp add: retry_or_drop_def logged_def Let_def)
          with False third show ?thesis
            by (simp add: retries_left_Cons)
        qed
      qed
      finally show ?thesis
        by (simp add: run_worker_Delivering [OF Delivering] held)
    qed
  qed
qed

lemma deliveries_since_retry_or_drop:
  "deliveries (logged_since s (run_worker outcome k (loop_head (retry_or_drop now j s))))
   = deliveries (logged_since (retry_or_drop now j s)
       (run_worker outcome k (loop_head (retry_or_drop now j s))))"
proof -
  let ?s1 = "retry_or_drop now j s"
  obtain ext where ext: "logs (run_worker outcome k (loop_head ?s1)) = logs (loop_head ?s1) @ ext"
    using logs_run_worker by blast
  show ?thesis
    unfolding logged_since_def ext
    by (simp add: logs_loop_head logs_retry_or_drop deliveries_append)
qed

lemma retried_after_the_queue:
  assumes running: "worker s = Delivering j"
    and rejected: "\<not> fst (outcome k)"
    and left: "job.attempts j < job.maxAttempts j"
  shows "take (Suc (length (emailQueue s)))
           (deliveries (logged_since s (run_worker outcome k s)))
         = map job_id (emailQueue s) @ [job_id j]"
proof -
  let ?now = "snd (outcome k)"
  let ?s1 = "retry_or_drop ?now j s"
  have s': "delivery_settled (fst (outcome k)) ?now s = loop_head ?s1"
    using running rejected by (simp add: delivery_settled_def)
  have queue: "emailQueue ?s1
               = emailQueue s @ [j\<lparr>job.attempts := job.attempts j + 1, addedAt := ?now\<rparr>]"
    using left by (simp add: retry_or_drop_def logged_def Let_def)
  have "worker (loop_head ?s1) = Idle \<longrightarrow> emailQueue (loop_head ?s1) = []"
    by (cases "emailQueue ?s1") (simp_all add: loop_head_Nil loop_head_Cons)
  from fifo_at_head [OF fifo_run_worker [OF this]]
  have "take (length (emailQueue ?s1))
          (deliveries (logged_since ?s1 (run_worker outcome (Suc k) (loop_head ?s1))))
        = map job_id (emailQueue ?s1)" .
  then show ?thesis
    by (simp add: run_worker_Delivering [OF running] s' deliveries_since_retry_or_drop queue)
qed

lemma queue_order_of_drain:
  assumes "worker s = Idle" "\<not> isProcessing s"
  shows "take (length (emailQueue s)) (deliveries (logged_since s (drain outcome s)))
         = map job_id (emailQueue s)"
proof (cases "emailQueue s")
  case Nil
  with assms show ?thesis by simp
next
  case (Cons j q)
  let ?s0 = "logged (Info_starting (length (emailQueue s))) (s\<lparr>isProcessing := True\<rparr>)"
  have start: "processQueue s = loop_head ?s0"
    using assms Cons by (simp add: processQueue_def)
  have "worker (loop_head ?s0) = Idle \<longrightarrow> emailQueue (loop_head ?s0) = []"
    by (cases "emailQueue ?s0") (simp_all add: loop_head_Nil loop_head_Cons)
  from fifo_at_head [OF fifo_run_worker [OF this]]
  have "take (length (emailQueue ?s0))
          (deliveries (logged_since ?s0 (run_worker outcome 0 (loop_head ?s0))))
        = map job_id (emailQueue ?s0)" .
  moreover have "deliveries (logged_since s (run_worker outcome 0 (loop_head ?s0)))
        = deliveries (logged_since ?s0 (run_worker outcome 0 (loop_head ?s0)))"
  proof -
    obtain ext where ext: "logs (run_worker outcome 0 (loop_head ?s0)) = logs (loop_head ?s0) @ ext"
      using logs_run_worker by blast
    show ?thesis
      unfolding logged_since_def ext
      by (simp add: logs_loop_head logged_def deliveries_append)
  qed
  ultimately show ?thesis
    by (simp add: drain_def start logged_def)
qed

lemma jobs_held_logged: "jobs_held (logged l s) = jobs_held s"
  by (simp add: jobs_held_def logged_def)

lemma addToQueue_running:
  "isProcessing s \<Longrightarrow>
   addToQueue now rnd d s =
     logged (Email_log ''queued'' None (to d))
       (s\<lparr>emailQueue := emailQueue s @
            [emailData.extend d (job.fields (of_nat now + rnd) now 0 3)]\<rparr>)"
  by (simp add: addToQueue_def logged_def Let_def)

lemma addToQueue_idle:
  "\<not> isProcessing s \<Longrightarrow>
   addToQueue now rnd d s =
     loop_head
       (logged (Info_starting (Suc (length (emailQueue s))))
          (logged (Email_log ''queued'' None (to d))
             (s\<lparr>emailQueue := emailQueue s @
                  [emailData.extend d (job.fields (of_nat now + rnd) now 0 3)],
                isProcessing := True\<rparr>)))"
  by (simp add: addToQueue_def processQueue_def logged_def Let_def)

lemma last_jobs_held_addToQueue:
  "last (jobs_held (addToQueue now rnd d s))
   = emailData.extend d (job.fields (of_nat now + rnd) now 0 3)"
proof (cases "isProcessing s")
  case True
  then show ?thesis
    by (simp add: addToQueue_running jobs_held_def logged_def)
next
  case False
  then show ?thesis
    by (simp add: addToQueue_idle jobs_held_loop_head logged_def)
qed

lemma save_for_tracking_frame:
  "emailQueue (save_for_tracking env operation d s) = emailQueue s"
  "worker (save_for_tracking env operation d s) = worker s"
  "isProcessing (save_for_tracking env operation d s) = isProcessing s"
  by (simp_all add: save_for_tracking_def save_def logged_def Let_def)

lemma save_for_tracking_store_down:
  "\<not> store_ok env \<Longrightarrow>
   emails (save_for_tracking env operation d s) = emails s
   \<and> logs (save_for_tracking env operation d s)
       = logs s @ [Error_saving operation (message StoreError)]"
  by (simp add: save_for_tracking_def save_def logged_def Let_def)

subsection \<open>Saving a document\<close>

lemma findById_store_doc:
  "email_id e = i \<Longrightarrow> findById i (store_doc e docs) = Some e"
  by (induction docs) (auto simp: findById_def)

lemma save_fields:
  "email_id (fst (save now ok e docs)) = email_id e"
  "status (fst (save now ok e docs)) = status e"
  "email_doc.attempts (fst (save now ok e docs)) = email_doc.attempts e"
  "email_doc.maxAttempts (fst (save now ok e docs)) = email_doc.maxAttempts e"
  by (simp_all add: save_def pre_save_def Let_def)

lemma save_ok: "snd (save now True e docs) = Inr (store_doc (fst (save now True e docs)) docs)"
  by (simp add: save_def Let_def)

subsection \<open>The sample histories\<close>

lemma emails_both_failed:
  "map email_id (emails both_failed) = [7, 8]
   \<and> map status (emails both_failed) = [Failed, Failed]
   \<and> map email_doc.attempts (emails both_failed) = [1, 1]
   \<and> map email_doc.maxAttempts (emails both_failed) = [3, 3]
   \<and> map updatedAt (emails both_failed) = [Some 3011, Some 3001]"
  by (simp add: model_defs)

lemma emails_exhausted:
  "map email_id (emails exhausted) = [7]
   \<and> map status (emails exhausted) = [Failed]
   \<and> map email_doc.attempts (emails exhausted) = [3]
   \<and> map email_doc.maxAttempts (emails exhausted) = [3]"
  by (simp add: model_defs)

lemma emails_high_then_low:
  "map email_id (emails high_then_low) = [7, 8]
   \<and> map priority (emails high_then_low) = [High, Low]
   \<and> map status (emails high_then_low) = [Pending, Pending]
   \<and> map scheduledAt (emails high_then_low) = [1000, 1500]"
  by (simp add: model_defs)

lemma emails_welcomed:
  "map email_id (emails welcomed) = [7]
   \<and> map status (emails welcomed) = [Pending]
   \<and> map email_doc.attempts (emails welcomed) = [0]
   \<and> map email_doc.maxAttempts (emails welcomed) = [3]"
  by (simp add: model_defs)

lemmas run_defs = run_worker_Idle run_worker_Pausing run_worker_Delivering drain_def
  low_job_def urgent_job_def low_before_urgent_def delivering_low_def logged_since_def jobs_held_def

lemma run_low_before_urgent:
  "deliveries (logged_since low_before_urgent (drain all_rejected low_before_urgent))
     = [1, 2, 1, 2, 1, 2, 1, 2]
   \<and> requeues 1 (logged_since low_before_urgent (drain all_rejected low_before_urgent)) = 3"
  by (simp add: run_defs model_defs)

lemma worker_delivering_low:
  "worker delivering_low = Delivering low_job
   \<and> isProcessing delivering_low
   \<and> emailQueue delivering_low = [urgent_job]"
  by (simp add: delivering_low_def low_before_urgent_def initial_def processQueue_def
        loop_head_def logged_def)

lemma jobs_rejected_thrice:
  "(\<exists>j. worker rejected_thrice = Delivering j \<and> job.attempts j = 3 \<and> job.maxAttempts j = 3)
   \<and> emailQueue rejected_thrice = []
   \<and> map status (emails rejected_thrice) = [Pending]
   \<and> map errorMessage (emails rejected_thrice) = [None]"
  by (simp add: rejected_thrice_def run_defs model_defs)

lemma history_retried_and_rejected:
  "map email_id (emails delivered_then_failed) = [7]
   \<and> map status (emails delivered_then_failed) = [Failed]
   \<and> map email_doc.attempts (emails delivered_then_failed) = [1]
   \<and> map email_doc.maxAttempts (emails delivered_then_failed) = [3]
   \<and> deliveries (logs delivered_then_failed) = [2001 / 2]
   \<and> map email_doc.attempts (emails retried_and_rejected) = [1]
   \<and> map email_doc.maxAttempts (emails retried_and_rejected) = [3]
   \<and> deliveries (logs retried_and_rejected)
       = [2001 / 2, 16003 / 4, 16003 / 4, 16003 / 4, 16003 / 4]"
  by (simp add: run_defs model_defs)

subsection \<open>The drain loop and the collection\<close>

text \<open>
  C1, as amended. The drain loop never writes to the collection: whatever job it takes
  off the queue, the record of that job is the same before the simulated delivery,
  after a delivery that succeeds, and when the run is over. Neither \<open>status\<close> nor
  \<open>attempts\<close> nor \<open>sentAt\<close> of any record is changed by \<open>processQueue\<close>; the loop writes
  log lines only.
\<close>

theorem drain_loop_leaves_ledger:
  "emails (processQueue s) = emails s
   \<and> emails (loop_head s) = emails s
   \<and> emails (delivery_settled ok now s) = emails s
   \<and> emails (delay_elapsed s) = emails s
   \<and> emails (run_worker outcome k s) = emails s
   \<and> emails (drain outcome s) = emails s"
  by (simp add: emails_processQueue emails_loop_head emails_delivery_settled
        emails_delay_elapsed emails_run_worker emails_drain)

text \<open>
  C1 as stated fails. After \<open>sendWelcomeEmail\<close> the job is in delivery (it is off the
  queue) while its record is \<open>pending\<close> with \<open>attempts = 0\<close>; after the delivery has
  succeeded the record is still \<open>pending\<close>, with no \<open>sentAt\<close>.
\<close>

theorem delivered_but_still_pending:
  "map to (jobs_held welcomed) = [''alice@x.com'']
   \<and> emailQueue welcomed = []
   \<and> map to (emails welcomed) = [''alice@x.com'']
   \<and> map status (emails welcomed) = [Pending]
   \<and> map email_doc.attempts (emails welcomed) = [0]
   \<and> worker (delivery_settled True 2000 welcomed) = Pausing
   \<and> map status (emails (delivery_settled True 2000 welcomed)) = [Pending]
   \<and> map email_doc.attempts (emails (delivery_settled True 2000 welcomed)) = [0]
   \<and> map sentAt (emails (delivery_settled True 2000 welcomed)) = [None]"
  by (simp add: run_defs model_defs)

text \<open>
  C2, as amended. When the delivery of a job is rejected and the \<open>attempts\<close> of the job
  have reached its \<open>maxAttempts\<close>, the job is not put back: the jobs held afterwards
  are those of the queue, and at the end of the run the queue is empty. The collection
  is as before: the loop gives the record of the job neither the status \<open>failed\<close> nor an
  error message.
\<close>

theorem exhausted_job_is_dropped:
  assumes "worker s = Delivering j" and "job.maxAttempts j \<le> job.attempts j"
  shows "jobs_held (delivery_settled False now s) = emailQueue s
       \<and> emails (delivery_settled False now s) = emails s
       \<and> emailQueue (run_worker outcome k s) = []
       \<and> emails (run_worker outcome k s) = emails s"
proof -
  have "settled (run_worker outcome k s)"
    by (rule run_worker_settles) (simp add: assms)
  with assms show ?thesis
    by (simp add: delivery_settled_def jobs_held_loop_head retry_or_drop_def logged_def
          Let_def emails_loop_head emails_run_worker settled_def)
qed

theorem exhausted_job_is_dropped_witness:
  "map job.attempts (jobs_held rejected_thrice) = [3]
   \<and> map job.maxAttempts (jobs_held rejected_thrice) = [3]
   \<and> emailQueue rejected_thrice = []
   \<and> jobs_held (delivery_settled False 2003 rejected_thrice) = []
   \<and> emails (delivery_settled False 2003 rejected_thrice) = emails rejected_thrice
   \<and> emailQueue (run_worker all_rejected 3 rejected_thrice) = []
   \<and> map status (emails (run_worker all_rejected 3 rejected_thrice)) = [Pending]"
proof -
  from jobs_rejected_thrice obtain j where j: "worker rejected_thrice = Delivering j"
    "job.attempts j = 3" "job.maxAttempts j = 3"
    by blast
  then have "job.maxAttempts j \<le> job.attempts j" by simp
  from exhausted_job_is_dropped [OF j(1) this, of 2003 all_rejected 3] j jobs_rejected_thrice
  show ?thesis by (simp add: jobs_held_def)
qed

text \<open>
  C2 as stated fails. The welcome e-mail is rejected four times, the last time with
  \<open>attempts = maxAttempts = 3\<close>; the loop logs the permanent failure and ends with the
  queue empty, and the record is still \<open>pending\<close> without an error message.
\<close>

theorem exhausted_but_still_pending:
  "deliveries (logs (run_worker all_rejected 0 welcomed)) = [2001 / 2, 2001 / 2, 2001 / 2, 2001 / 2]
   \<and> last (butlast (logs (run_worker all_rejected 0 welcomed)))
       = Error_failed_permanently (2001 / 2) 3
   \<and> emailQueue (run_worker all_rejected 0 welcomed) = []
   \<and> worker (run_worker all_rejected 0 welcomed) = Idle
   \<and> map status (emails (run_worker all_rejected 0 welcomed)) = [Pending]
   \<and> map errorMessage (emails (run_worker all_rejected 0 welcomed)) = [None]"
  by (simp add: run_defs model_defs)

subsection \<open>The order of a batch\<close>

text \<open>
  C3 at a failing input. The collection holds a pending e-mail of priority \<open>high\<close> and a
  pending e-mail of priority \<open>low\<close>, both scheduled before \<open>now = 3000\<close>. \<open>getPendingEmails\<close>
  puts the \<open>low\<close> one first, and with a limit of one returns the \<open>low\<close> one only: the
  stored strings are compared, and \<open>''high''\<close> is below \<open>''low''\<close>. A batch of size one
  processes the \<open>low\<close> e-mail (\<open>_id\<close> 8) and leaves the \<open>high\<close> one pending.
\<close>

theorem batch_takes_low_before_high:
  "map priority (emails high_then_low) = [High, Low]
   \<and> map status (emails high_then_low) = [Pending, Pending]
   \<and> map priority (getPendingEmails 3000 2 (emails high_then_low)) = [Low, High]
   \<and> map priority (getPendingEmails 3000 1 (emails high_then_low)) = [Low]
   \<and> fst (simulateEmailProcessing (none_delivered 3000) 3000 (Some 1) high_then_low)
       = Completed 1
           [\<lparr>emailId = 8, result_status = Failed, result_recipient = ''alice@x.com'',
             result_error = Some ''Simulated processing failure''\<rparr>] 1"
proof -
  from emails_high_then_low obtain a b where ab: "emails high_then_low = [a, b]"
    and "priority a = High" "priority b = Low" "status a = Pending" "status b = Pending"
    "scheduledAt a = 1000" "scheduledAt b = 1500"
    by (cases "emails high_then_low"; cases "tl (emails high_then_low)") auto
  then have "map priority (getPendingEmails 3000 2 (emails high_then_low)) = [Low, High]"
    "map priority (getPendingEmails 3000 1 (emails high_then_low)) = [Low]"
    by (simp_all add: getPendingEmails_def limit_docs_def sort_by_def pending_order_def)
  moreover have "fst (simulateEmailProcessing (none_delivered 3000) 3000 (Some 1) high_then_low)
       = Completed 1
           [\<lparr>emailId = 8, result_status = Failed, result_recipient = ''alice@x.com'',
             result_error = Some ''Simulated processing failure''\<rparr>] 1"
    by (simp add: model_defs)
  ultimately show ?thesis
    using emails_high_then_low by simp
qed

subsection \<open>Retrying\<close>

text \<open>
  C4. For a record that is there, \<open>retryFailedEmail\<close> throws \<open>Email cannot be retried\<close>
  exactly when the status of the record is not \<open>failed\<close> or its \<open>attempts\<close> have reached
  \<open>maxAttempts\<close>. Whenever it throws, the collection, the queue, the flag and the worker
  are as before: only the log has grown.
\<close>

theorem retry_not_eligible:
  assumes "findById i (emails s) = Some e"
  shows "(fst (retryFailedEmail env i s) = Inl EmailCannotBeRetried
            \<longleftrightarrow> status e \<noteq> Failed \<or> email_doc.maxAttempts e \<le> email_doc.attempts e)
       \<and> (\<forall>err. fst (retryFailedEmail env i s) = Inl err \<longrightarrow>
             emails (snd (retryFailedEmail env i s)) = emails s
           \<and> emailQueue (snd (retryFailedEmail env i s)) = emailQueue s
           \<and> isProcessing (snd (retryFailedEmail env i s)) = isProcessing s
           \<and> worker (snd (retryFailedEmail env i s)) = worker s)"
proof -
  have stored: "snd (retry now ok e docs) \<noteq> Inl EmailCannotBeRetried" for now ok docs
    by (simp add: retry_def save_def Let_def)
  show ?thesis
    using assms stored [of "clock env" "store_ok env" "emails s"]
    by (auto simp: retryFailedEmail_def canRetry_def logged_def Let_def
             split: prod.splits sum.splits)
qed

theorem retry_not_eligible_witness:
  "findById 7 (emails exhausted) = Some (hd (emails exhausted))
   \<and> email_doc.maxAttempts (hd (emails exhausted)) \<le> email_doc.attempts (hd (emails exhausted))
   \<and> fst (retryFailedEmail at_noon 7 exhausted) = Inl EmailCannotBeRetried
   \<and> emails (snd (retryFailedEmail at_noon 7 exhausted)) = emails exhausted
   \<and> emailQueue (snd (retryFailedEmail at_noon 7 exhausted)) = emailQueue exhausted"
proof -
  from emails_exhausted obtain e where e: "emails exhausted = [e]"
    and fields: "email_id e = 7" "status e = Failed"
      "email_doc.attempts e = 3" "email_doc.maxAttempts e = 3"
    by (cases "emails exhausted") auto
  have found: "findById 7 (emails exhausted) = Some (hd (emails exhausted))"
    using e fields by (simp add: findById_def)
  from retry_not_eligible [OF found, of at_noon] e fields found
  show ?thesis by simp
qed

subsection \<open>The retry budget of a record\<close>

lemma call_method_keeps_budget:
  assumes found: "findById i docs = Some e"
    and budget: "within_budget e"
    and guard: "m = MarkAsProcessing \<longrightarrow> status e = Pending"
  shows "\<exists>e'. findById i (call_method i now m docs) = Some e' \<and> within_budget e'"
proof -
  have i: "email_id e = i"
    using found by (auto simp: findById_def dest: find_Some_iff [THEN iffD1])
  show ?thesis
  proof (cases m)
    case MarkAsProcessing
    let ?e = "fst (markAsProcessing now True e docs)"
    have "call_method i now m docs = store_doc ?e docs"
      using found MarkAsProcessing by (simp add: call_method_def markAsProcessing_def save_ok)
    moreover have "email_id ?e = i" "within_budget ?e"
      using i budget guard MarkAsProcessing
      by (simp_all add: markAsProcessing_def save_fields within_budget_def)
    ultimately show ?thesis by (simp add: findById_store_doc)
  next
    case MarkAsSent
    let ?e = "fst (markAsSent now True e docs)"
    have "call_method i now m docs = store_doc ?e docs"
      using found MarkAsSent by (simp add: call_method_def markAsSent_def save_ok)
    moreover have "email_id ?e = i" "within_budget ?e"
      using i budget by (simp_all add: markAsSent_def save_fields within_budget_def)
    ultimately show ?thesis by (simp add: findById_store_doc)
  next
    case (MarkAsFailed msg)
    let ?e = "fst (markAsFailed now True msg e docs)"
    have "call_method i now m docs = store_doc ?e docs"
      using found MarkAsFailed by (simp add: call_method_def markAsFailed_def save_ok)
    moreover have "email_id ?e = i" "within_budget ?e"
      using i budget by (simp_all add: markAsFailed_def save_fields within_budget_def)
    ultimately show ?thesis by (simp add: findById_store_doc)
  next
    case Retry
    show ?thesis
    proof (cases "email_doc.attempts e < email_doc.maxAttempts e")
      case True
      let ?e = "fst (retry now True e docs)"
      have "call_method i now m docs = store_doc ?e docs"
        using found Retry True by (simp add: call_method_def retry_def save_ok)
      moreover have "email_id ?e = i" "within_budget ?e"
        using i budget True by (simp_all add: retry_def save_fields within_budget_def)
      ultimately show ?thesis by (simp add: findById_store_doc)
    next
      case False
      then have "call_method i now m docs = docs"
        using found Retry by (simp add: call_method_def retry_def)
      with found budget show ?thesis by simp
    qed
  qed
qed

lemma call_methods_append:
  "call_methods i (ms @ ms') docs = call_methods i ms' (call_methods i ms docs)"
  by (induction i ms docs rule: call_methods.induct) simp_all

lemma call_methods_keep_budget:
  assumes "findById i docs = Some e" "within_budget e" "processing_when_pending i ms docs"
  shows "\<exists>e'. findById i (call_methods i (take k ms) docs) = Some e' \<and> within_budget e'"
  using assms
proof (induction i ms docs arbitrary: e k rule: call_methods.induct)
  case (1 i docs)
  then show ?case by simp
next
  case (2 i now m ms docs)
  show ?case
  proof (cases k)
    case 0
    with 2 show ?thesis by simp
  next
    case (Suc k')
    from "2.prems" have "m = MarkAsProcessing \<longrightarrow> status e = Pending"
      by auto
    from call_method_keeps_budget [OF "2.prems"(1,2) this]
    obtain e' where "findById i (call_method i now m docs) = Some e'" "within_budget e'"
      by blast
    from "2.IH" [OF this] "2.prems"(3) Suc show ?thesis by simp
  qed
qed

text \<open>
  C5, as amended. A record is created by \<open>new Email(emailData)\<close> and a first \<open>save\<close>.
  Through every history of \<open>markAsProcessing\<close>, \<open>markAsSent\<close>, \<open>markAsFailed\<close> and \<open>retry\<close>
  in which \<open>markAsProcessing\<close> is called only while the record is pending, the record
  has \<open>attempts \<le> maxAttempts\<close> after every call (\<open>take k ms\<close> is the history up to its
  \<open>k\<close>-th call).
\<close>

theorem attempts_within_maxAttempts:
  assumes created: "snd (save t0 True (new_Email i t0 emailData) docs) = Inr docs0"
    and guarded: "processing_when_pending i ms docs0"
  shows "\<exists>e. findById i (call_methods i (take k ms) docs0) = Some e
           \<and> email_doc.attempts e \<le> email_doc.maxAttempts e"
proof -
  define e0 where "e0 = fst (save t0 True (new_Email i t0 emailData) docs)"
  have docs0: "docs0 = store_doc e0 docs"
    using created unfolding e0_def save_ok by simp
  have "email_id e0 = i" "within_budget e0"
    unfolding e0_def
    by (simp_all add: save_fields within_budget_def new_Email_def emailData.extend_def
                      email_doc.fields_def)
  then have "findById i docs0 = Some e0"
    unfolding docs0 by (simp add: findById_store_doc)
  from call_methods_keep_budget [OF this \<open>within_budget e0\<close> guarded]
  show ?thesis by (auto simp: within_budget_def)
qed


theorem attempts_within_maxAttempts_witness:
  "snd (save 1000 True
          (new_Email 7 1000
             \<lparr>to = ''alice@x.com'', subject = ''Welcome to Task Workflow, Alice!'',
              content = [], type = Welcome, recipient = 1, sender = 1,
              relatedTask = None, priority = Normal\<rparr>) []) = Inr (emails welcomed)
   \<and> processing_when_pending 7 fails_and_is_retried (emails welcomed)
   \<and> (\<exists>e. findById 7 (call_methods 7 (take 4 fails_and_is_retried) (emails welcomed)) = Some e
          \<and> email_doc.attempts e \<le> email_doc.maxAttempts e)
   \<and> map email_doc.attempts (call_methods 7 fails_and_is_retried (emails welcomed)) = [2]"
proof -
  have created: "snd (save 1000 True
          (new_Email 7 1000
             \<lparr>to = ''alice@x.com'', subject = ''Welcome to Task Workflow, Alice!'',
              content = [], type = Welcome, recipient = 1, sender = 1,
              relatedTask = None, priority = Normal\<rparr>) []) = Inr (emails welcomed)"
    by (simp add: model_defs)
  have guarded: "processing_when_pending 7 fails_and_is_retried (emails welcomed)"
    by (simp add: fails_and_is_retried_def call_method_def model_defs)
  have "map email_doc.attempts (call_methods 7 fails_and_is_retried (emails welcomed)) = [2]"
    by (simp add: fails_and_is_retried_def call_method_def model_defs)
  with created guarded attempts_within_maxAttempts [OF created guarded, of 4]
  show ?thesis by simp
qed


text \<open>
  C5 as stated fails: nothing in \<open>markAsProcessing\<close> looks at \<open>maxAttempts\<close>. Called four
  times on the record of a welcome e-mail, it leaves \<open>attempts = 4\<close> with
  \<open>maxAttempts = 3\<close>.
\<close>

theorem attempts_beyond_maxAttempts:
  "map email_doc.attempts (call_methods 7 processing_four_times (emails welcomed)) = [4]
   \<and> map email_doc.maxAttempts (call_methods 7 processing_four_times (emails welcomed)) = [3]"
  by (simp add: processing_four_times_def call_method_def model_defs)

subsection \<open>Listing failed e-mails\<close>

text \<open>
  C6, as amended. For a limit \<open>n \<ge> 1\<close>, \<open>getFailedEmails\<close> returns records of the
  collection that are failed with \<open>attempts < maxAttempts\<close> (those that \<open>canRetry\<close>
  accepts), as many of them as there are up to \<open>n\<close>, oldest \<open>updatedAt\<close> first; a record
  like that which is not returned is not older than any that is. A record whose
  \<open>attempts\<close> have reached \<open>maxAttempts\<close> is never returned.
\<close>

theorem getFailedEmails_retryable_oldest_first:
  assumes "0 < n"
  shows "set (getFailedEmails n docs) \<subseteq> {e \<in> set docs. canRetry e}
       \<and> length (getFailedEmails n docs) = min n (length (filter canRetry docs))
       \<and> sorted_wrt (\<lambda>a b. date_le (updatedAt a) (updatedAt b)) (getFailedEmails n docs)
       \<and> (\<forall>e \<in> set docs. canRetry e \<longrightarrow> e \<notin> set (getFailedEmails n docs) \<longrightarrow>
            (\<forall>r \<in> set (getFailedEmails n docs). date_le (updatedAt r) (updatedAt e)))
       \<and> (\<forall>e \<in> set (getFailedEmails n docs).
            status e = Failed \<and> email_doc.attempts e < email_doc.maxAttempts e)"
proof -
  let ?le = "\<lambda>a b. date_le (updatedAt a) (updatedAt b)"
  let ?all = "sort_by ?le (filter canRetry docs)"
  have "(\<lambda>e. status e = Failed \<and> email_doc.attempts e < email_doc.maxAttempts e) = canRetry"
    by (simp add: fun_eq_iff canRetry_def)
  then have res: "getFailedEmails n docs = take n ?all"
    using assms by (simp add: getFailedEmails_def limit_docs_def)
  have sorted_all: "sorted_wrt ?le ?all"
  proof (rule sorted_sort_by)
    show "?le a b \<or> ?le b a" for a b by (rule date_le_total)
    show "?le a b \<Longrightarrow> ?le b c \<Longrightarrow> ?le a c" for a b c by (rule date_le_trans)
  qed
  have set_all: "set ?all = {e \<in> set docs. canRetry e}"
    by (auto simp: set_sort_by)
  have sub: "set (take n ?all) \<subseteq> {e \<in> set docs. canRetry e}"
    using set_take_subset [of n ?all] set_all by blast
  have len: "length (take n ?all) = min n (length (filter canRetry docs))"
    by (simp add: length_sort_by min.commute)
  have "sorted_wrt ?le (take n ?all @ drop n ?all)"
    using sorted_all by simp
  then have split: "sorted_wrt ?le (take n ?all) \<and>
      (\<forall>r \<in> set (take n ?all). \<forall>e \<in> set (drop n ?all). ?le r e)"
    unfolding sorted_wrt_append by blast
  have rest: "e \<in> set (drop n ?all)"
    if "e \<in> set docs" "canRetry e" "e \<notin> set (take n ?all)" for e
  proof -
    have "set ?all = set (take n ?all) \<union> set (drop n ?all)"
      by (metis append_take_drop_id set_append)
    with that set_all show ?thesis by blast
  qed
  have older: "date_le (updatedAt r) (updatedAt e)"
    if "e \<in> set docs" "canRetry e" "e \<notin> set (take n ?all)" "r \<in> set (take n ?all)" for e r
    using split rest [OF that(1,2,3)] that(4) by blast
  have each: "status e = Failed \<and> email_doc.attempts e < email_doc.maxAttempts e"
    if "e \<in> set (take n ?all)" for e
    using sub that by (auto simp: canRetry_def)
  show ?thesis
    unfolding res using sub len split older each by blast
qed

theorem getFailedEmails_retryable_oldest_first_witness:
  "0 < (1::nat)
   \<and> map email_id (emails both_failed) = [7, 8]
   \<and> map updatedAt (emails both_failed) = [Some 3011, Some 3001]
   \<and> map email_id (getFailedEmails 1 (emails both_failed)) = [8]
   \<and> length (getFailedEmails 1 (emails both_failed))
       = min 1 (length (filter canRetry (emails both_failed)))
   \<and> sorted_wrt (\<lambda>a b. date_le (updatedAt a) (updatedAt b))
        (getFailedEmails 1 (emails both_failed))"
proof -
  from emails_both_failed obtain a b where ab: "emails both_failed = [a, b]"
    and fields: "email_id a = 7" "email_id b = 8" "status a = Failed" "status b = Failed"
      "email_doc.attempts a = 1" "email_doc.attempts b = 1"
      "email_doc.maxAttempts a = 3" "email_doc.maxAttempts b = 3"
      "updatedAt a = Some 3011" "updatedAt b = Some 3001"
    by (cases "emails both_failed"; cases "tl (emails both_failed)") auto
  have "map email_id (getFailedEmails 1 (emails both_failed)) = [8]"
    using ab fields by (simp add: getFailedEmails_def limit_docs_def sort_by_def)
  with emails_both_failed
    getFailedEmails_retryable_oldest_first [of 1 "emails both_failed"]
  show ?thesis by simp
qed

text \<open>
  C6 as stated fails. The welcome e-mail that failed in three batches is failed with
  \<open>attempts = maxAttempts = 3\<close>, and \<open>getFailedEmails 5\<close> returns nothing.
\<close>

theorem getFailedEmails_omits_exhausted:
  "map status (emails exhausted) = [Failed]
   \<and> map email_doc.attempts (emails exhausted) = [3]
   \<and> map email_doc.maxAttempts (emails exhausted) = [3]
   \<and> getFailedEmails 5 (emails exhausted) = []"
proof -
  from emails_exhausted obtain e where e: "emails exhausted = [e]"
    and fields: "status e = Failed" "email_doc.attempts e = 3" "email_doc.maxAttempts e = 3"
    by (cases "emails exhausted") auto
  then show ?thesis
    by (simp add: getFailedEmails_def limit_docs_def sort_by_def)
qed

subsection \<open>Enqueueing\<close>

lemma producers_enqueue:
  "fst (sendWelcomeEmail env meanwhile html (Some user) s) = Inr ()"
  "\<exists>d. snd (sendWelcomeEmail env meanwhile html (Some user) s)
        = save_for_tracking env ''welcome_queued'' d
            (meanwhile (addToQueue (clock env) (math_random env) d s))"
  "fst (sendTaskAssignmentEmail env meanwhile html (Some task) (Some assignee)
          (Some assignedBy) s) = Inr ()"
  "\<exists>d. snd (sendTaskAssignmentEmail env meanwhile html (Some task) (Some assignee)
          (Some assignedBy) s)
        = save_for_tracking env ''task_assignment_queued'' d
            (meanwhile (addToQueue (clock env) (math_random env) d s))"
  "fst (sendTaskUpdateEmail env meanwhile html (Some task) (Some user) s) = Inr ()"
  "\<exists>d. snd (sendTaskUpdateEmail env meanwhile html (Some task) (Some user) s)
        = save_for_tracking env ''task_update_queued'' d
            (meanwhile (addToQueue (clock env) (math_random env) d s))"
  "fst (sendTaskReminderEmail env meanwhile html (Some task) (Some user) s) = Inr ()"
  "\<exists>d. snd (sendTaskReminderEmail env meanwhile html (Some task) (Some user) s)
        = save_for_tracking env ''task_reminder_queued'' d
            (meanwhile (addToQueue (clock env) (math_random env) d s))"
  "fst (sendTaskCompletionEmail env meanwhile html (Some task) (Some user) s) = Inr ()"
  "\<exists>d. snd (sendTaskCompletionEmail env meanwhile html (Some task) (Some user) s)
        = save_for_tracking env ''task_completion_queued'' d
            (meanwhile (addToQueue (clock env) (math_random env) d s))"
  by (simp_all add: sendWelcomeEmail_def sendTaskAssignmentEmail_def sendTaskUpdateEmail_def
        sendTaskReminderEmail_def sendTaskCompletionEmail_def Let_def) blast+

text \<open>
  C7, as amended. \<open>addToQueue\<close> puts exactly one job at the tail of the queue. While the
  loop is running the queue is one job longer when \<open>addToQueue\<close> returns, the new job
  last. While the loop is idle \<open>addToQueue\<close> starts it before it returns, and the loop
  takes the head of the queue at once: the queue is then not longer than before, and
  the job taken is in delivery. Each of the five producers, called with arguments that
  are there, makes this one call of \<open>addToQueue\<close> and then awaits the write of the
  record; it returns without an error whether the write succeeds or not. The write
  changes neither the queue nor the worker; when it fails the error is logged and no
  record is written. When the producer returns, the queue and the worker are what the
  rest of the process has made of them while the producer was waiting.
\<close>

theorem enqueue_appends_one_job:
  "(isProcessing s \<longrightarrow>
      emailQueue (addToQueue now rnd d s)
      = emailQueue s @ [emailData.extend d (job.fields (of_nat now + rnd) now 0 3)]
      \<and> worker (addToQueue now rnd d s) = worker s
      \<and> isProcessing (addToQueue now rnd d s))
   \<and> (\<not> isProcessing s \<longrightarrow>
      emailQueue (addToQueue now rnd d s)
      = tl (emailQueue s @ [emailData.extend d (job.fields (of_nat now + rnd) now 0 3)])
      \<and> worker (addToQueue now rnd d s)
        = Delivering (hd (emailQueue s @
            [emailData.extend d (job.fields (of_nat now + rnd) now 0 3)]))
      \<and> isProcessing (addToQueue now rnd d s))
   \<and> emailQueue (save_for_tracking env operation d s) = emailQueue s
   \<and> worker (save_for_tracking env operation d s) = worker s
   \<and> isProcessing (save_for_tracking env operation d s) = isProcessing s
   \<and> (\<not> store_ok env \<longrightarrow>
      emails (save_for_tracking env operation d s) = emails s
      \<and> logs (save_for_tracking env operation d s)
        = logs s @ [Error_saving operation (message StoreError)])
   \<and> fst (sendWelcomeEmail env meanwhile html (Some user) s) = Inr ()
   \<and> (\<exists>d. snd (sendWelcomeEmail env meanwhile html (Some user) s)
        = save_for_tracking env ''welcome_queued'' d
            (meanwhile (addToQueue (clock env) (math_random env) d s)))
   \<and> fst (sendTaskAssignmentEmail env meanwhile html (Some task) (Some assignee)
        (Some assignedBy) s) = Inr ()
   \<and> (\<exists>d. snd (sendTaskAssignmentEmail env meanwhile html (Some task) (Some assignee)
          (Some assignedBy) s)
        = save_for_tracking env ''task_assignment_queued'' d
            (meanwhile (addToQueue (clock env) (math_random env) d s)))
   \<and> fst (sendTaskUpdateEmail env meanwhile html (Some task) (Some user) s) = Inr ()
   \<and> (\<exists>d. snd (sendTaskUpdateEmail env meanwhile html (Some task) (Some user) s)
        = save_for_tracking env ''task_update_queued'' d
            (meanwhile (addToQueue (clock env) (math_random env) d s)))
   \<and> fst (sendTaskReminderEmail env meanwhile html (Some task) (Some user) s) = Inr ()
   \<and> (\<exists>d. snd (sendTaskReminderEmail env meanwhile html (Some task) (Some user) s)
        = save_for_tracking env ''task_reminder_queued'' d
            (meanwhile (addToQueue (clock env) (math_random env) d s)))
   \<and> fst (sendTaskCompletionEmail env meanwhile html (Some task) (Some user) s) = Inr ()
   \<and> (\<exists>d. snd (sendTaskCompletionEmail env meanwhile html (Some task) (Some user) s)
        = save_for_tracking env ''task_completion_queued'' d
            (meanwhile (addToQueue (clock env) (math_random env) d s)))"
proof -
  let ?j = "emailData.extend d (job.fields (of_nat now + rnd) now 0 3)"
  have running: "isProcessing s \<longrightarrow>
      emailQueue (addToQueue now rnd d s) = emailQueue s @ [?j]
      \<and> worker (addToQueue now rnd d s) = worker s
      \<and> isProcessing (addToQueue now rnd d s)"
    by (simp add: addToQueue_running logged_def)
  have idle: "\<not> isProcessing s \<longrightarrow>
      emailQueue (addToQueue now rnd d s) = tl (emailQueue s @ [?j])
      \<and> worker (addToQueue now rnd d s) = Delivering (hd (emailQueue s @ [?j]))
      \<and> isProcessing (addToQueue now rnd d s)"
    by (cases "emailQueue s") (simp_all add: addToQueue_idle loop_head_def logged_def)
  from running idle save_for_tracking_store_down [of env operation d s]
  show ?thesis
    by (simp add: save_for_tracking_frame producers_enqueue)
qed

theorem enqueue_appends_one_job_witness:
  "isProcessing delivering_low
   \<and> emailQueue delivering_low = [urgent_job]
   \<and> emailQueue (addToQueue 300 0 (sample_data High) delivering_low)
       = [urgent_job, emailData.extend (sample_data High) (job.fields 300 300 0 3)]
   \<and> \<not> isProcessing initial
   \<and> emailQueue (addToQueue 300 0 (sample_data High) initial) = []
   \<and> worker (addToQueue 300 0 (sample_data High) initial)
       = Delivering (emailData.extend (sample_data High) (job.fields 300 300 0 3))
   \<and> \<not> store_ok store_down
   \<and> emails (save_for_tracking store_down ''welcome_queued'' (sample_data High) delivering_low)
       = emails delivering_low
   \<and> emailQueue (save_for_tracking store_down ''welcome_queued'' (sample_data High) delivering_low)
       = emailQueue delivering_low
   \<and> fst (sendTaskUpdateEmail store_down (delivery_settled False 1100) [] (Some urgent_task)
        (Some alice) delivering_low) = Inr ()
   \<and> map job_id (emailQueue (snd (sendTaskUpdateEmail store_down (delivery_settled False 1100)
        [] (Some urgent_task) (Some alice) delivering_low))) = [2001 / 2, 1]
   \<and> emails (snd (sendTaskUpdateEmail store_down (delivery_settled False 1100) []
        (Some urgent_task) (Some alice) delivering_low)) = []"
proof -
  have down: "\<not> store_ok store_down" and idle: "\<not> isProcessing initial" "emailQueue initial = []"
    by (simp_all add: store_down_def initial_def)
  have meanwhile:
    "map job_id (emailQueue (snd (sendTaskUpdateEmail store_down (delivery_settled False 1100)
        [] (Some urgent_task) (Some alice) delivering_low))) = [2001 / 2, 1]"
    "emails (snd (sendTaskUpdateEmail store_down (delivery_settled False 1100) []
        (Some urgent_task) (Some alice) delivering_low)) = []"
    by (simp_all add: run_defs model_defs)
  from enqueue_appends_one_job [where s = delivering_low and now = 300 and rnd = 0
      and d = "sample_data High" and env = store_down and operation = "''welcome_queued''"
      and meanwhile = "delivery_settled False 1100" and html = "[]" and task = urgent_task
      and user = alice and assignee = alice and assignedBy = alice]
    enqueue_appends_one_job [where s = initial and now = 300 and rnd = 0
      and d = "sample_data High" and env = store_down and operation = "''welcome_queued''"
      and meanwhile = id and html = "[]" and task = urgent_task
      and user = alice and assignee = alice and assignedBy = alice]
    worker_delivering_low down idle meanwhile
  show ?thesis by simp
qed

text \<open>
  C7 as stated fails. On the dispatcher as loaded, with the store down,
  \<open>sendWelcomeEmail\<close> returns without an error and with the queue as empty as before
  (\<open>getQueueStatus\<close> reports length 0 and an active loop): the job is not in the queue
  but in delivery, and there is no record. And \<open>sendTaskUpdateEmail\<close> for a task that is
  not assigned, whose user is \<open>null\<close>, throws a \<open>TypeError\<close> to its caller and puts no
  job into the queue.
\<close>

theorem enqueue_while_idle_queue_not_longer:
  "emailQueue initial = []
   \<and> \<not> isProcessing initial
   \<and> fst (sendWelcomeEmail store_down id [] (Some alice) initial) = Inr ()
   \<and> emailQueue (snd (sendWelcomeEmail store_down id [] (Some alice) initial)) = []
   \<and> getQueueStatus (snd (sendWelcomeEmail store_down id [] (Some alice) initial))
       = (0, True, 0, ''active'')
   \<and> emails (snd (sendWelcomeEmail store_down id [] (Some alice) initial)) = []
   \<and> map to (jobs_held (snd (sendWelcomeEmail store_down id [] (Some alice) initial)))
       = [''alice@x.com'']
   \<and> sendTaskUpdateEmail at_noon id [] (Some urgent_task) None initial
       = (Inl TypeError, initial)"
  by (simp add: getQueueStatus_def jobs_held_def model_defs)

subsection \<open>The order of the queue\<close>

text \<open>
  C8. The loop takes the head of the queue, whatever the priorities of the jobs in it;
  \<open>addToQueue\<close> puts a job at the tail; a job whose delivery is rejected with attempts
  left is put at the tail, behind every job of the queue. So in a run the jobs that
  are in the queue when a delivery is rejected are all delivered, in the order of the
  queue, before the rejected job is delivered again; and a run that starts on a queue
  delivers the jobs of that queue first, in their order.
\<close>

theorem queue_is_fifo:
  "(emailQueue s = j # q \<longrightarrow>
      worker (loop_head s) = Delivering j \<and> emailQueue (loop_head s) = q)
   \<and> (isProcessing s \<longrightarrow>
        emailQueue (addToQueue now rnd d s)
        = emailQueue s @ [emailData.extend d (job.fields (of_nat now + rnd) now 0 3)])
   \<and> (worker s = Delivering j' \<and> job.attempts j' < job.maxAttempts j' \<longrightarrow>
        jobs_held (delivery_settled False now s)
        = emailQueue s @ [j'\<lparr>job.attempts := job.attempts j' + 1, addedAt := now\<rparr>])
   \<and> (worker s = Delivering j' \<and> \<not> fst (outcome k) \<and> job.attempts j' < job.maxAttempts j' \<longrightarrow>
        take (Suc (length (emailQueue s))) (deliveries (logged_since s (run_worker outcome k s)))
        = map job_id (emailQueue s) @ [job_id j'])
   \<and> (worker s = Idle \<and> \<not> isProcessing s \<longrightarrow>
        take (length (emailQueue s)) (deliveries (logged_since s (drain outcome s)))
        = map job_id (emailQueue s))"
proof -
  have head: "emailQueue s = j # q \<longrightarrow>
      worker (loop_head s) = Delivering j \<and> emailQueue (loop_head s) = q"
    by (simp add: loop_head_Cons)
  have push: "isProcessing s \<longrightarrow>
        emailQueue (addToQueue now rnd d s)
        = emailQueue s @ [emailData.extend d (job.fields (of_nat now + rnd) now 0 3)]"
    by (simp add: addToQueue_def logged_def Let_def)
  have tail: "worker s = Delivering j' \<and> job.attempts j' < job.maxAttempts j' \<longrightarrow>
        jobs_held (delivery_settled False now s)
        = emailQueue s @ [j'\<lparr>job.attempts := job.attempts j' + 1, addedAt := now\<rparr>]"
    by (simp add: delivery_settled_def jobs_held_loop_head retry_or_drop_def logged_def Let_def)
  from head push tail retried_after_the_queue [of s j' outcome k]
    queue_order_of_drain [of s outcome]
  show ?thesis by blast
qed

theorem queue_is_fifo_witness:
  "emailQueue low_before_urgent = [low_job, urgent_job]
   \<and> priority low_job = Low \<and> priority urgent_job = Urgent
   \<and> job_id low_job = 1 \<and> job_id urgent_job = 2
   \<and> job.attempts low_job < job.maxAttempts low_job
   \<and> worker (loop_head low_before_urgent) = Delivering low_job
   \<and> worker delivering_low = Delivering low_job
   \<and> isProcessing delivering_low
   \<and> emailQueue (addToQueue 300 0 (sample_data High) delivering_low)
       = [urgent_job, emailData.extend (sample_data High) (job.fields 300 300 0 3)]
   \<and> jobs_held (delivery_settled False 300 delivering_low)
       = [urgent_job, low_job\<lparr>job.attempts := 1, addedAt := 300\<rparr>]
   \<and> \<not> fst (all_rejected 0)
   \<and> take 2 (deliveries (logged_since delivering_low (run_worker all_rejected 0 delivering_low)))
       = [2, 1]
   \<and> worker low_before_urgent = Idle \<and> \<not> isProcessing low_before_urgent
   \<and> take 2 (deliveries (logged_since low_before_urgent (drain all_rejected low_before_urgent)))
       = [1, 2]"
proof -
  have queue: "emailQueue low_before_urgent = [low_job, urgent_job]"
    and idle: "worker low_before_urgent = Idle" "\<not> isProcessing low_before_urgent"
    by (simp_all add: low_before_urgent_def initial_def)
  have jobs: "priority low_job = Low" "priority urgent_job = Urgent"
    "job_id low_job = 1" "job_id urgent_job = 2" "job.attempts low_job < job.maxAttempts low_job"
    "job.attempts low_job = 0"
    by (simp_all add: low_job_def urgent_job_def sample_data_def emailData.extend_def
          job.fields_def)
  have rejected: "\<not> fst (all_rejected 0)"
    by (simp add: all_rejected_def)
  note running = worker_delivering_low
  from queue_is_fifo [where s = low_before_urgent and j = low_job and q = "[urgent_job]"
      and outcome = all_rejected]
    queue_is_fifo [where s = delivering_low and j = urgent_job and q = "[]" and now = 300
      and rnd = 0 and d = "sample_data High" and j' = low_job and outcome = all_rejected
      and k = 0]
    queue idle jobs rejected running
  show ?thesis by (simp add: numeral_2_eq_2)
qed

subsection \<open>Termination of a run\<close>

text \<open>
  C9. \<open>run_worker\<close> is a total function: every run of the loop ends (the termination
  proof of \<open>run_worker\<close> measures \<open>work_left\<close>, which every resumption of the worker
  decreases). A run started on an idle dispatcher ends with the queue empty, the flag
  \<open>isProcessing\<close> down and the worker idle, and for every \<open>id\<close> the jobs of that \<open>id\<close>
  are put back into the queue no more often than their \<open>maxAttempts - attempts\<close> allow.
  The jobs need not have \<open>attempts \<le> maxAttempts\<close> for this.
\<close>

theorem drain_terminates:
  assumes "worker s = Idle" and "\<not> isProcessing s"
  shows "emailQueue (drain outcome s) = []
       \<and> \<not> isProcessing (drain outcome s)
       \<and> worker (drain outcome s) = Idle
       \<and> (\<forall>i. requeues i (logged_since s (drain outcome s)) \<le> retries_left i (emailQueue s))"
proof -
  have "requeues i (logged_since s (drain outcome s)) \<le> retries_left i (emailQueue s)" for i
  proof (cases "emailQueue s")
    case Nil
    with assms show ?thesis
      by (simp add: drain_def processQueue_def run_worker_Idle logged_since_def)
  next
    case (Cons j q)
    let ?s0 = "logged (Info_starting (length (emailQueue s))) (s\<lparr>isProcessing := True\<rparr>)"
    let ?s1 = "loop_head ?s0"
    have start: "processQueue s = ?s1"
      using assms Cons by (simp add: processQueue_def)
    have "logs ?s1 = logs s @ [Info_starting (length (emailQueue s)),
                               Info_processing (job_id j) (type j) (to j)]"
      using Cons by (simp add: logs_loop_head logged_def)
    from logged_since_run_worker [OF this]
    have "requeues i (logged_since s (run_worker outcome 0 ?s1))
          = requeues i (logged_since ?s1 (run_worker outcome 0 ?s1))"
      by (simp add: requeues_append)
    also have "\<dots> \<le> retries_left i (jobs_held ?s1)"
      by (rule requeues_run_worker)
    also have "jobs_held ?s1 = emailQueue s"
      by (simp add: jobs_held_loop_head logged_def)
    finally show ?thesis
      by (simp add: drain_def start)
  qed
  with drain_settles [OF assms, of outcome] show ?thesis
    by (simp add: settled_def)
qed

theorem drain_terminates_witness:
  "worker low_before_urgent = Idle
   \<and> \<not> isProcessing low_before_urgent
   \<and> map job.attempts (emailQueue low_before_urgent) = [0, 0]
   \<and> map job.maxAttempts (emailQueue low_before_urgent) = [3, 3]
   \<and> emailQueue (drain all_rejected low_before_urgent) = []
   \<and> \<not> isProcessing (drain all_rejected low_before_urgent)
   \<and> worker (drain all_rejected low_before_urgent) = Idle
   \<and> requeues 1 (logged_since low_before_urgent (drain all_rejected low_before_urgent)) = 3
   \<and> retries_left 1 (emailQueue low_before_urgent) = 3"
proof -
  have idle: "worker low_before_urgent = Idle" "\<not> isProcessing low_before_urgent"
    by (simp_all add: low_before_urgent_def initial_def)
  have "map job.attempts (emailQueue low_before_urgent) = [0, 0]"
    "map job.maxAttempts (emailQueue low_before_urgent) = [3, 3]"
    "retries_left 1 (emailQueue low_before_urgent) = 3"
    by (simp_all add: run_defs retries_left_def model_defs)
  with idle drain_terminates [OF idle, of all_rejected] run_low_before_urgent
  show ?thesis by simp
qed

subsection \<open>The attempts of a queued job\<close>

lemma retry_eligible:
  assumes found: "findById i (emails s) = Some e" and eligible: "canRetry e"
    and ok: "store_ok env"
  shows "\<exists>e'. fst (retryFailedEmail env i s) = Inr e'
           \<and> findById i (emails (snd (retryFailedEmail env i s))) = Some e'
           \<and> status e' = Pending
           \<and> email_doc.attempts e' = email_doc.attempts e
           \<and> email_doc.maxAttempts e' = email_doc.maxAttempts e"
    and "job.attempts (last (jobs_held (snd (retryFailedEmail env i s)))) = 0"
    and "job.maxAttempts (last (jobs_held (snd (retryFailedEmail env i s)))) = 3"
proof -
  let ?e = "e\<lparr>status := Pending, processedAt := None, sentAt := None, errorMessage := None\<rparr>"
  let ?e' = "fst (save (clock env) True ?e (emails s))"
  let ?docs = "store_doc ?e' (emails s)"
  let ?d = "\<lparr>to = to ?e', subject = subject ?e', content = content ?e', type = type ?e',
             recipient = recipient ?e', sender = sender ?e', relatedTask = relatedTask ?e',
             priority = priority ?e'\<rparr>"
  have i: "email_id e = i"
    using found by (auto simp: findById_def dest: find_Some_iff [THEN iffD1])
  have left: "email_doc.attempts e < email_doc.maxAttempts e"
    using eligible by (simp add: canRetry_def)
  have retried: "retry (clock env) (store_ok env) e (emails s) = (?e', Inr ?docs)"
    using left ok by (simp add: retry_def prod_eq_iff save_ok)
  have result: "retryFailedEmail env i s =
      (Inr ?e', logged (Info_retried i (to ?e'))
                  (addToQueue (clock env) (math_random env) ?d (s\<lparr>emails := ?docs\<rparr>)))"
    using found eligible retried by (simp add: retryFailedEmail_def Let_def)
  have "findById i ?docs = Some ?e'"
    by (rule findById_store_doc) (simp add: save_fields i)
  then show "\<exists>e'. fst (retryFailedEmail env i s) = Inr e'
           \<and> findById i (emails (snd (retryFailedEmail env i s))) = Some e'
           \<and> status e' = Pending
           \<and> email_doc.attempts e' = email_doc.attempts e
           \<and> email_doc.maxAttempts e' = email_doc.maxAttempts e"
    by (simp add: result logged_def emails_addToQueue save_fields)
  show "job.attempts (last (jobs_held (snd (retryFailedEmail env i s)))) = 0"
    "job.maxAttempts (last (jobs_held (snd (retryFailedEmail env i s)))) = 3"
    by (simp_all add: result jobs_held_logged last_jobs_held_addToQueue
          emailData.extend_def job.fields_def)
qed

text \<open>
  C10. The job that \<open>addToQueue\<close> adds is the last that the dispatcher holds, and it has
  \<open>attempts = 0\<close> and \<open>maxAttempts = 3\<close> whatever \<open>emailData\<close> is. When the operator
  retries a record that can be retried, the record keeps its \<open>attempts\<close> while the job
  that enters the queue for it starts from \<open>attempts = 0\<close> of 3 again. So the deliveries
  for one record can be more than its \<open>maxAttempts\<close>: in the sample history the job of
  the record is delivered five times by the loop (once, and four times after the
  retry) and once in a batch, and the record has \<open>attempts = 1\<close> of \<open>maxAttempts = 3\<close>.
\<close>

theorem addToQueue_fresh_attempts:
  "job.attempts (last (jobs_held (addToQueue now rnd d s))) = 0
   \<and> job.maxAttempts (last (jobs_held (addToQueue now rnd d s))) = 3
   \<and> emailData.truncate (last (jobs_held (addToQueue now rnd d s))) = d
   \<and> (findById i (emails s) = Some e \<and> canRetry e \<and> store_ok env \<longrightarrow>
        (\<exists>e'. fst (retryFailedEmail env i s) = Inr e'
           \<and> findById i (emails (snd (retryFailedEmail env i s))) = Some e'
           \<and> status e' = Pending
           \<and> email_doc.attempts e' = email_doc.attempts e
           \<and> email_doc.maxAttempts e' = email_doc.maxAttempts e)
        \<and> job.attempts (last (jobs_held (snd (retryFailedEmail env i s)))) = 0
        \<and> job.maxAttempts (last (jobs_held (snd (retryFailedEmail env i s)))) = 3)
   \<and> map email_doc.maxAttempts (emails retried_and_rejected) = [3]
   \<and> map email_doc.attempts (emails retried_and_rejected) = [1]
   \<and> length (deliveries (logs retried_and_rejected)) = 5"
proof -
  have "emailData.truncate (emailData.extend d (job.fields (of_nat now + rnd) now 0 3)) = d"
    by (simp add: emailData.truncate_def emailData.extend_def)
  with retry_eligible [of i s e env] history_retried_and_rejected
  show ?thesis
    by (simp add: last_jobs_held_addToQueue emailData.extend_def job.fields_def)
qed


theorem addToQueue_fresh_attempts_witness:
  "findById 7 (emails delivered_then_failed) = Some (hd (emails delivered_then_failed))
   \<and> canRetry (hd (emails delivered_then_failed))
   \<and> store_ok in_the_evening
   \<and> email_doc.attempts (hd (emails delivered_then_failed)) = 1
   \<and> (\<exists>e'. fst (retryFailedEmail in_the_evening 7 delivered_then_failed) = Inr e'
          \<and> status e' = Pending \<and> email_doc.attempts e' = 1)
   \<and> job.attempts (last (jobs_held (snd (retryFailedEmail in_the_evening 7
         delivered_then_failed)))) = 0
   \<and> job.maxAttempts (last (jobs_held (snd (retryFailedEmail in_the_evening 7
         delivered_then_failed)))) = 3
   \<and> job.attempts (last (jobs_held (addToQueue 300 0 (sample_data High)
         delivered_then_failed))) = 0"
proof -
  from history_retried_and_rejected obtain e where e: "emails delivered_then_failed = [e]"
    and fields: "email_id e = 7" "status e = Failed"
      "email_doc.attempts e = 1" "email_doc.maxAttempts e = 3"
    by (cases "emails delivered_then_failed") auto
  have found: "findById 7 (emails delivered_then_failed) = Some (hd (emails delivered_then_failed))"
    using e fields by (simp add: findById_def)
  have eligible: "canRetry (hd (emails delivered_then_failed))"
    using e fields by (simp add: canRetry_def)
  have ok: "store_ok in_the_evening"
    by (simp add: in_the_evening_def)
  have retried: "findById 7 (emails delivered_then_failed) = Some (hd (emails delivered_then_failed))
      \<and> canRetry (hd (emails delivered_then_failed)) \<and> store_ok in_the_evening"
    using found eligible ok by simp
  from addToQueue_fresh_attempts [where s = delivered_then_failed and i = 7
      and e = "hd (emails delivered_then_failed)" and env = in_the_evening
      and now = 300 and rnd = 0 and d = "sample_data High"]
    retried e fields
  show ?thesis by auto
qed

end
